theory Spec2Isabelle
  imports Main "HOL-Library.Sublist"
begin

section \<open>Strings\<close>

text \<open>
  A JavaScript string is a sequence of UTF-16 code units; a code unit is a natural number.
  \<open>js\<close> turns an ASCII literal into its code units, so \<open>js ''svg''\<close> is the
  string \<^verbatim>\<open>'svg'\<close> of the source.
\<close>

type_synonym jsstring = "nat list"

definition js :: "string \<Rightarrow> jsstring" where
  "js s = map of_char s"

text \<open>
  \<^verbatim>\<open>String.prototype.toLowerCase\<close> on Basic Latin (A-Z) and the Latin-1 Supplement
  (U+00C0-U+00DE without the multiplication sign U+00D7): the code unit plus 32. Every other code
  unit is left as it is; the case mappings of other scripts are outside this model. The
  handles, tag names and keywords the script compares against are in the range covered or
  in scripts without case.
\<close>

definition lowerUnit :: "nat \<Rightarrow> nat" where
  "lowerUnit u =
     (if (65 \<le> u \<and> u \<le> 90) \<or> (192 \<le> u \<and> u \<le> 222 \<and> u \<noteq> 215) then u + 32 else u)"

definition toLowerCase :: "jsstring \<Rightarrow> jsstring" where
  "toLowerCase s = map lowerUnit s"

text \<open>\<^verbatim>\<open>s.includes(sub)\<close>: \<open>sub\<close> occurs in \<open>s\<close> as a contiguous run.\<close>

fun str_includes :: "jsstring \<Rightarrow> jsstring \<Rightarrow> bool" where
  "str_includes [] sub = (sub = [])"
| "str_includes (c # cs) sub = (prefix sub (c # cs) \<or> str_includes cs sub)"

text \<open>
  The regular-expression classes the script uses: \<^verbatim>\<open>\s\<close> (white space and line
  terminators), \<^verbatim>\<open>\d\<close>, \<^verbatim>\<open>[a-zA-Z0-9_]\<close>, and the line terminators that
  \<^verbatim>\<open>.\<close> refuses.
\<close>

definition isSpace :: "nat \<Rightarrow> bool" where
  "isSpace u =
     (u \<in> {9, 10, 11, 12, 13, 32, 160, 5760, 8232, 8233, 8239, 8287, 12288, 65279}
      \<or> (8192 \<le> u \<and> u \<le> 8202))"

definition isDigit :: "nat \<Rightarrow> bool" where
  "isDigit u = (48 \<le> u \<and> u \<le> 57)"

definition isWordUnit :: "nat \<Rightarrow> bool" where
  "isWordUnit u = ((97 \<le> u \<and> u \<le> 122) \<or> (65 \<le> u \<and> u \<le> 90) \<or> isDigit u \<or> u = 95)"

definition isLineTerminator :: "nat \<Rightarrow> bool" where
  "isLineTerminator u = (u \<in> {10, 13, 8232, 8233})"

text \<open>\<^verbatim>\<open>s.trim()\<close>: white space is removed at both ends.\<close>

definition trim :: "jsstring \<Rightarrow> jsstring" where
  "trim s = rev (dropWhile isSpace (rev (dropWhile isSpace s)))"

text \<open>\<^verbatim>\<open>parseInt(ds, 10)\<close> on a non-empty run of decimal digits.\<close>

definition parseInt10 :: "jsstring \<Rightarrow> nat" where
  "parseInt10 ds = foldl (\<lambda>n d. 10 * n + (d - 48)) 0 ds"

section \<open>The page: elements and containers\<close>

text \<open>
  An element of the page:
  \<^item> \<open>nodeId\<close>: the identity of the node object. The script holds elements by reference
    (the static lists of \<^verbatim>\<open>querySelectorAll\<close>, the added nodes of a mutation record); a
    reference is a node identity. The nodes of a page carry different identities; the
    nodes the script creates for a placeholder carry the identity 0;
  \<^item> \<open>tagName\<close>, \<open>attributes\<close>, \<open>ownText\<close>: tag name, the attributes the page wrote
    (\<^verbatim>\<open>data-testid\<close> among them, \<^verbatim>\<open>style\<close> apart) and the element's own text;
  \<^item> \<open>color\<close>: the foreground colour that \<^verbatim>\<open>getComputedStyle(e).color\<close> reports while
    the element is in the document;
  \<^item> \<open>childNodes\<close>: the child elements in document order;
  \<^item> \<open>processed\<close>, \<open>replaced\<close>: \<^verbatim>\<open>PROCESSED_ATTR\<close> and \<^verbatim>\<open>REPLACED_ATTR\<close> are present
    (the script writes them with the value \<^verbatim>\<open>'true'\<close> and removes them, nothing else);
  \<^item> \<open>padding\<close>: what \<^verbatim>\<open>element.style.padding\<close> reads, the padding shorthand of the
    inline style. The rest of the inline style is not part of the model (an assignment to
    the shorthand also replaces the padding longhands of the inline style);
  \<^item> \<open>blockBlueOriginal\<close>: the children held by the fragment in
    \<^verbatim>\<open>_blockBlueOriginal\<close>, \<open>None\<close> when the property is not there;
  \<^item> \<open>blockBlueOriginalPadding\<close>: \<^verbatim>\<open>_blockBlueOriginalPadding\<close>.
  A held child is an element like any other: a container can sit inside a container, and
  a hidden container inside the fragment of another hidden container.
\<close>

datatype element =
  Element (nodeId: nat) (tagName: jsstring) (attributes: "(jsstring \<times> jsstring) list")
    (ownText: jsstring) (color: jsstring) (childNodes: "element list")
    (processed: bool) (replaced: bool) (padding: jsstring)
    (blockBlueOriginal: "element list option") (blockBlueOriginalPadding: "jsstring option")

text \<open>An element as the page delivers it, untouched by the script.\<close>

definition pageElement ::
  "nat \<Rightarrow> jsstring \<Rightarrow> (jsstring \<times> jsstring) list \<Rightarrow> jsstring \<Rightarrow> jsstring \<Rightarrow> element list
     \<Rightarrow> element" where
  "pageElement i t a x c ks = Element i t a x c ks False False [] None None"

text \<open>What a selector looks at in an element: its tag name and its attributes.\<close>

type_synonym tag = "jsstring \<times> (jsstring \<times> jsstring) list"

definition startTag :: "element \<Rightarrow> tag" where
  "startTag e = (tagName e, attributes e)"

definition getAttribute :: "element \<Rightarrow> jsstring \<Rightarrow> jsstring option" where
  "getAttribute e name = map_of (attributes e) name"

text \<open>
  The subtree of an element in document order (pre-order), each element with the chain of
  its ancestors, nearest first. \<open>anc\<close> is the chain above the element walked. Held
  children are not part of the subtree: they hang on a property of the script, not in the
  tree.
\<close>

fun withAncestors :: "tag list \<Rightarrow> element \<Rightarrow> (element \<times> tag list) list" where
  "withAncestors anc (Element i t a x c ks p r pad orig opad) =
     (Element i t a x c ks p r pad orig opad, anc)
       # concat (map (withAncestors ((t, a) # anc)) ks)"

definition descendants :: "element \<Rightarrow> element list" where
  "descendants e = concat (map (\<lambda>k. map fst (withAncestors [] k)) (childNodes e))"

text \<open>Plain document order: an element, then its children's subtrees from left to right.\<close>

fun preorder :: "element \<Rightarrow> element list" where
  "preorder (Element i t a x c ks p r pad orig opad) =
     Element i t a x c ks p r pad orig opad # concat (map preorder ks)"

text \<open>
  A type selector such as \<^verbatim>\<open>svg\<close> or \<^verbatim>\<open>a\<close> matches an element whose tag name is
  that name in any case (an HTML element reports its tag name in upper case).
\<close>

definition hasType :: "jsstring \<Rightarrow> jsstring \<Rightarrow> bool" where
  "hasType name t = (toLowerCase t = name)"

text \<open>\<^verbatim>\<open>a[href*="/status/"]\<close>, and \<^verbatim>\<open>e.closest(...)\<close> over the element and its ancestors.\<close>

definition matchesStatusLink :: "tag \<Rightarrow> bool" where
  "matchesStatusLink g =
     (hasType (js ''a'') (fst g) \<and>
      (case map_of (snd g) (js ''href'') of
         None \<Rightarrow> False
       | Some h \<Rightarrow> str_includes h (js ''/status/'')))"

definition closestStatusLink :: "element \<times> tag list \<Rightarrow> tag option" where
  "closestStatusLink ea = find matchesStatusLink (startTag (fst ea) # snd ea)"

text \<open>\<^verbatim>\<open>a[role="link"][href]\<close>.\<close>

definition matchesRoleLink :: "element \<Rightarrow> bool" where
  "matchesRoleLink e =
     (hasType (js ''a'') (tagName e) \<and> getAttribute e (js ''role'') = Some (js ''link'')
      \<and> getAttribute e (js ''href'') \<noteq> None)"

text \<open>
  \<^verbatim>\<open>SELECTORS\<close>: \<^verbatim>\<open>[data-testid="tweet"], [data-testid="UserCell"]\<close>. A container is
  an element that matches.
\<close>

definition matchesSelectors :: "element \<Rightarrow> bool" where
  "matchesSelectors e =
     (getAttribute e (js ''data-testid'') = Some (js ''tweet'')
      \<or> getAttribute e (js ''data-testid'') = Some (js ''UserCell''))"

text \<open>
  An element outside the document has no computed style: \<^verbatim>\<open>getComputedStyle\<close> answers
  the empty string for every property of it. \<open>detached\<close> is a subtree as the script
  reads it while it is held by a fragment.
\<close>

fun detached :: "element \<Rightarrow> element" where
  "detached (Element i t a x c ks p r pad orig opad) =
     Element i t a x [] (map detached ks) p r pad orig opad"

text \<open>
  An element where a function of the script receives it: the node, the ancestors it has
  at its place (nearest first), and whether it is in the document. \<open>self\<close> is what a
  selector sees of it and \<open>content\<close> its children as the script reads them.
\<close>

record container =
  node :: element
  above :: "tag list"
  connected :: bool

definition self :: "container \<Rightarrow> tag" where
  "self c = startTag (node c)"

definition content :: "container \<Rightarrow> element list" where
  "content c = (if connected c then childNodes (node c) else map detached (childNodes (node c)))"

text \<open>\<^verbatim>\<open>element.querySelectorAll(...)\<close> on a container, with each hit's ancestor chain.\<close>

definition inside :: "container \<Rightarrow> (element \<times> tag list) list" where
  "inside c = concat (map (withAncestors (self c # above c)) (content c))"

definition querySelectorAll_svg :: "container \<Rightarrow> (element \<times> tag list) list" where
  "querySelectorAll_svg c = filter (\<lambda>ea. hasType (js ''svg'') (tagName (fst ea))) (inside c)"

definition querySelectorAll_roleLink :: "element list \<Rightarrow> element list" where
  "querySelectorAll_roleLink ks =
     filter matchesRoleLink (concat (map (\<lambda>k. map fst (withAncestors [] k)) ks))"

text \<open>\<^verbatim>\<open>root.querySelectorAll(SELECTORS.join(', '))\<close>: references to the containers below \<open>root\<close>.\<close>

definition querySelectorAll_SELECTORS :: "element \<Rightarrow> nat list" where
  "querySelectorAll_SELECTORS root = map nodeId (filter matchesSelectors (descendants root))"

subsection \<open>References\<close>

text \<open>
  Where a node lies below the body: a step goes to the \<open>n\<close>-th child or to the
  \<open>n\<close>-th element held by the fragment. \<open>pathTo ref\<close> finds the node with the
  identity \<open>ref\<close>, in the document or held; \<open>elementAt\<close> reads the element at
  a path, with its ancestors (a fragment has none to offer) and whether it is in the
  document; \<open>modifyAt\<close> rewrites the element at a path.
\<close>

datatype step = Child nat | Held nat

fun pathTo :: "nat \<Rightarrow> element \<Rightarrow> step list option"
  and pathIn :: "nat \<Rightarrow> (nat \<Rightarrow> step) \<Rightarrow> nat \<Rightarrow> element list \<Rightarrow> step list option" where
  "pathTo ref (Element i t a x c ks p r pad orig opad) =
     (if i = ref then Some []
      else case pathIn ref Child 0 ks of
        Some path \<Rightarrow> Some path
      | None \<Rightarrow> (case orig of None \<Rightarrow> None | Some hs \<Rightarrow> pathIn ref Held 0 hs))"
| "pathIn ref mk n [] = None"
| "pathIn ref mk n (k # ks) =
     (case pathTo ref k of
        Some path \<Rightarrow> Some (mk n # path)
      | None \<Rightarrow> pathIn ref mk (Suc n) ks)"

fun elementAt :: "step list \<Rightarrow> tag list \<Rightarrow> bool \<Rightarrow> element \<Rightarrow> container option" where
  "elementAt [] anc conn e = Some \<lparr>node = e, above = anc, connected = conn\<rparr>"
| "elementAt (Child n # path) anc conn e =
     (if n < length (childNodes e) then elementAt path (startTag e # anc) conn (childNodes e ! n)
      else None)"
| "elementAt (Held n # path) anc conn e =
     (case blockBlueOriginal e of
        None \<Rightarrow> None
      | Some hs \<Rightarrow> if n < length hs then elementAt path [] False (hs ! n) else None)"

fun setChildNodes :: "element list \<Rightarrow> element \<Rightarrow> element" where
  "setChildNodes ks' (Element i t a x c ks p r pad orig opad) =
     Element i t a x c ks' p r pad orig opad"

fun setOriginal :: "element list \<Rightarrow> element \<Rightarrow> element" where
  "setOriginal hs (Element i t a x c ks p r pad orig opad) =
     Element i t a x c ks p r pad (Some hs) opad"

fun modifyAt :: "step list \<Rightarrow> (element \<Rightarrow> element) \<Rightarrow> element \<Rightarrow> element" where
  "modifyAt [] f e = f e"
| "modifyAt (Child n # path) f e =
     (if n < length (childNodes e)
      then setChildNodes ((childNodes e)[n := modifyAt path f (childNodes e ! n)]) e
      else e)"
| "modifyAt (Held n # path) f e =
     (case blockBlueOriginal e of
        None \<Rightarrow> e
      | Some hs \<Rightarrow> if n < length hs then setOriginal (hs[n := modifyAt path f (hs ! n)]) e else e)"

text \<open>The element a reference denotes in the tree below \<open>tree\<close>, and its place.\<close>

definition lookup :: "nat \<Rightarrow> element \<Rightarrow> (step list \<times> container) option" where
  "lookup ref tree =
     (case pathTo ref tree of
        None \<Rightarrow> None
      | Some path \<Rightarrow>
          (case elementAt path [] True tree of
             None \<Rightarrow> None
           | Some c \<Rightarrow> Some (path, c)))"

text \<open>\<^verbatim>\<open>setAttribute(PROCESSED_ATTR, 'true')\<close> and \<^verbatim>\<open>removeAttribute(PROCESSED_ATTR)\<close>.\<close>

fun setProcessed :: "bool \<Rightarrow> element \<Rightarrow> element" where
  "setProcessed v (Element i t a x c ks p r pad orig opad) =
     Element i t a x c ks v r pad orig opad"

section \<open>Constants\<close>

definition VERIFIED_KEYWORDS :: "jsstring list" where
  "VERIFIED_KEYWORDS =
     [js ''verified'',
      [35469, 35388, 28168, 12415],
      [24050, 39564, 35777],
      [24050, 35469, 35657],
      js ''verifiziert'',
      [118, 233, 114, 105, 102, 105, 233],
      js ''verificado'',
      js ''verificato'',
      [51064, 51613]]"

definition FOLLOWING_KEYWORDS :: "jsstring list" where
  "FOLLOWING_KEYWORDS =
     [js ''following'',
      [12501, 12457, 12525, 12540, 20013],
      [27491, 22312, 20851, 27880],
      [27491, 22312, 38364, 27880],
      js ''siguiendo'',
      js ''suivi'',
      js ''folge ich'',
      js ''seguindo'',
      [115, 101, 103, 117, 105, 32, 103, 105, 224],
      [54036, 47196, 51081]]"

datatype BADGE_TYPES = BLUE | GOLD | GRAY

definition badgeName :: "BADGE_TYPES \<Rightarrow> jsstring" where
  "badgeName t = (case t of BLUE \<Rightarrow> js ''blue'' | GOLD \<Rightarrow> js ''gold'' | GRAY \<Rightarrow> js ''gray'')"

section \<open>Badge detection\<close>

definition isVerifiedBadge :: "element \<Rightarrow> bool" where
  "isVerifiedBadge svg =
     (if toLowerCase (tagName svg) \<noteq> js ''svg'' then False
      else
        let label = toLowerCase (case getAttribute svg (js ''aria-label'') of
                                   None \<Rightarrow> [] | Some l \<Rightarrow> l)
        in if label \<noteq> [] \<and> list_ex (\<lambda>kw. str_includes label kw) VERIFIED_KEYWORDS then True
           else if getAttribute svg (js ''viewBox'') = Some (js ''0 0 22 22'')
                   \<and> length (filter (\<lambda>p. hasType (js ''path'') (tagName p)) (descendants svg)) \<ge> 2
           then True
           else False)"

text \<open>
  The match of \<^verbatim>\<open>/rgb\(\s*(\d+)\s*,\s*(\d+)\s*,\s*(\d+)\s*\)/\<close>: \<open>rgbNumber\<close> is
  \<^verbatim>\<open>\s*(\d+)\s*\<close>, \<open>expect\<close> one literal code unit, \<open>rgbHere\<close> the
  whole pattern at the start of the string and \<open>rgbMatch\<close> the leftmost position where it
  matches. The classes of neighbouring pieces are disjoint, so the greedy match is the
  only one.
\<close>

definition rgbNumber :: "jsstring \<Rightarrow> (nat \<times> jsstring) option" where
  "rgbNumber s =
     (let s1 = dropWhile isSpace s; ds = takeWhile isDigit s1
      in if ds = [] then None
         else Some (parseInt10 ds, dropWhile isSpace (dropWhile isDigit s1)))"

fun expect :: "nat \<Rightarrow> jsstring \<Rightarrow> jsstring option" where
  "expect u [] = None"
| "expect u (c # cs) = (if c = u then Some cs else None)"

definition rgbHere :: "jsstring \<Rightarrow> (nat \<times> nat \<times> nat) option" where
  "rgbHere s =
     (if \<not> prefix (js ''rgb('') s then None
      else case rgbNumber (drop 4 s) of
        None \<Rightarrow> None
      | Some (r, s1) \<Rightarrow>
          (case expect 44 s1 of
             None \<Rightarrow> None
           | Some s2 \<Rightarrow>
               (case rgbNumber s2 of
                  None \<Rightarrow> None
                | Some (g, s3) \<Rightarrow>
                    (case expect 44 s3 of
                       None \<Rightarrow> None
                     | Some s4 \<Rightarrow>
                         (case rgbNumber s4 of
                            None \<Rightarrow> None
                          | Some (b, s5) \<Rightarrow>
                              (case expect 41 s5 of
                                 None \<Rightarrow> None
                               | Some s6 \<Rightarrow> Some (r, g, b)))))))"

fun rgbMatch :: "jsstring \<Rightarrow> (nat \<times> nat \<times> nat) option" where
  "rgbMatch [] = None"
| "rgbMatch (c # cs) =
     (case rgbHere (c # cs) of Some m \<Rightarrow> Some m | None \<Rightarrow> rgbMatch cs)"

text \<open>
  The channels are natural numbers; \<^verbatim>\<open>Math.abs(r - g)\<close> is taken over the integers.
\<close>

definition getBadgeColorType :: "element \<Rightarrow> BADGE_TYPES option" where
  "getBadgeColorType svg =
     (case rgbMatch (color svg) of
        None \<Rightarrow> None
      | Some (r, g, b) \<Rightarrow>
          if b > 180 \<and> r < 80 then Some BLUE
          else if r > 180 \<and> g > 140 \<and> b < 80 then Some GOLD
          else if \<bar>int r - int g\<bar> < 40 \<and> \<bar>int g - int b\<bar> < 40 \<and> r > 70 \<and> r < 200
               then Some GRAY
          else None)"

text \<open>
  The gray bucket as the specification words it: the three channels differ pairwise by
  less than 40 and red lies in the closed interval from 70 to 200.
\<close>

definition gray_as_specified :: "nat \<Rightarrow> nat \<Rightarrow> nat \<Rightarrow> bool" where
  "gray_as_specified r g b =
     (\<bar>int r - int g\<bar> < 40 \<and> \<bar>int g - int b\<bar> < 40 \<and> \<bar>int r - int b\<bar> < 40
      \<and> 70 \<le> r \<and> r \<le> 200)"

section \<open>Username extraction\<close>

text \<open>\<^verbatim>\<open>/^\/([a-zA-Z0-9_]{1,15})$/\<close>: the captured handle, when the string matches.\<close>

definition bareProfile :: "jsstring \<Rightarrow> jsstring option" where
  "bareProfile s =
     (case s of
        [] \<Rightarrow> None
      | c # h \<Rightarrow>
          if c = 47 \<and> 1 \<le> length h \<and> length h \<le> 15 \<and> list_all isWordUnit h then Some h
          else None)"

fun firstUsername :: "element list \<Rightarrow> jsstring option" where
  "firstUsername [] = None"
| "firstUsername (link # links) =
     (case getAttribute link (js ''href'') of
        None \<Rightarrow> firstUsername links
      | Some href \<Rightarrow>
          if href = [] then firstUsername links
          else (case bareProfile href of
                  None \<Rightarrow> firstUsername links
                | Some m \<Rightarrow> Some (toLowerCase m)))"

text \<open>\<open>extractUsername\<close> takes the children of the element it is asked about.\<close>

definition extractUsername :: "element list \<Rightarrow> jsstring option" where
  "extractUsername ks = firstUsername (querySelectorAll_roleLink ks)"

section \<open>State\<close>

record settings =
  enabled :: bool
  hideBlue :: bool
  hideGold :: bool
  hideGray :: bool
  whitelist :: "jsstring list"

text \<open>
  The globals of the content script, the document, and the two parts of the extension
  runtime the script reads: \<open>getMessage\<close> is \<^verbatim>\<open>chrome.i18n.getMessage\<close> (message
  name and substitutions) and \<open>runtimeId\<close> says that \<^verbatim>\<open>chrome.runtime.id\<close> is there
  (\<^verbatim>\<open>isContextValid\<close>). A timer field holds the delay in milliseconds of the pending
  timeout; scheduling again replaces it (\<^verbatim>\<open>clearTimeout\<close>, then \<^verbatim>\<open>setTimeout\<close>).
  \<open>observer\<close> says that a connected MutationObserver exists. \<open>body\<close> is
  \<^verbatim>\<open>document.body\<close> with everything below it; the document outside the body holds
  nothing the script looks for. \<open>hiddenCount\<close> is a JavaScript number that holds an
  integer.
\<close>

record state =
  getMessage :: "jsstring \<Rightarrow> jsstring list \<Rightarrow> jsstring"
  runtimeId :: bool
  settings :: settings
  whitelistSet :: "jsstring set"
  followedUsersSet :: "jsstring set"
  followedSaveTimer :: "nat option"
  hiddenCount :: int
  observer :: bool
  saveTimer :: "nat option"
  onFollowingTab :: "bool option"
  body :: element

definition isContextValid :: "state \<Rightarrow> bool" where
  "isContextValid st = runtimeId st"

definition debouncedSaveHiddenCount :: "state \<Rightarrow> state" where
  "debouncedSaveHiddenCount st = st\<lparr>saveTimer := Some 1000\<rparr>"

text \<open>
  \<^verbatim>\<open>n++\<close> on a number that holds an integer: the sum is rounded to the nearest
  double, a tie to the even significand. Up to \<open>2 ^ 53\<close> the sum is exact; from there
  to \<open>2 ^ 54\<close> the doubles are the even integers, and beyond they lie at least four
  apart, so that the number stays where it is.
\<close>

definition increment :: "int \<Rightarrow> int" where
  "increment n =
     (if - (2 ^ 53) \<le> n \<and> n < 2 ^ 53 then n + 1
      else if - (2 ^ 54) \<le> n \<and> n < 2 ^ 54 then (if 4 dvd n then n else n + 2)
      else n)"

section \<open>Settings\<close>

text \<open>
  What \<^verbatim>\<open>chrome.storage.sync.get\<close> answers: the whitelist is \<open>None\<close> when the stored
  value is not an array, the count is \<open>None\<close> when it is not a number.
  \<open>loadSettings\<close> also takes whether the context is still valid after the first read,
  and the stored \<^verbatim>\<open>followedUsers\<close> (\<open>None\<close> when not an array).
\<close>

record syncResult =
  r_enabled :: bool
  r_hideBlue :: bool
  r_hideGold :: bool
  r_hideGray :: bool
  r_whitelist :: "jsstring list option"
  r_hiddenCount :: "int option"

definition loadSettings ::
  "state \<Rightarrow> syncResult \<Rightarrow> bool \<Rightarrow> jsstring list option \<Rightarrow> state" where
  "loadSettings st result stillValid followedUsers =
     (if \<not> isContextValid st then st
      else
        let wl = (case r_whitelist result of None \<Rightarrow> [] | Some l \<Rightarrow> l);
            st1 = st\<lparr>settings :=
                       \<lparr>enabled = r_enabled result, hideBlue = r_hideBlue result,
                        hideGold = r_hideGold result, hideGray = r_hideGray result,
                        whitelist = wl\<rparr>,
                     whitelistSet := set (map toLowerCase wl),
                     hiddenCount := (case r_hiddenCount result of None \<Rightarrow> 0 | Some n \<Rightarrow> n)\<rparr>
        in if \<not> stillValid then st1
           else (case followedUsers of
                   None \<Rightarrow> st1
                 | Some us \<Rightarrow>
                     foldl (\<lambda>s u. s\<lparr>followedUsersSet := insert u (followedUsersSet s)\<rparr>) st1 us))"

section \<open>Following detection\<close>

definition debouncedSaveFollowedUsers :: "state \<Rightarrow> state" where
  "debouncedSaveFollowedUsers st = st\<lparr>followedSaveTimer := Some 2000\<rparr>"

definition markAsFollowed :: "state \<Rightarrow> jsstring \<Rightarrow> state" where
  "markAsFollowed st username =
     (if username = [] \<or> username \<in> followedUsersSet st then st
      else debouncedSaveFollowedUsers
             (st\<lparr>followedUsersSet := insert username (followedUsersSet st)\<rparr>))"

text \<open>
  What the script reads of the page besides its posts when it looks for follow
  signals: the path of the location, the text of each selected tab, the
  \<^verbatim>\<open>data-testid\<close> of each element matching \<^verbatim>\<open>[data-testid$="-unfollow"]\<close>, and each
  element of \<^verbatim>\<open>allButtons\<close> with its text, its \<^verbatim>\<open>aria-label\<close> and the children of
  the container that \<^verbatim>\<open>closest\<close> finds for it.
\<close>

record button =
  btnText :: jsstring
  btnAriaLabel :: "jsstring option"
  btnContainer :: "element list option"

record page =
  pathname :: jsstring
  selectedTabs :: "jsstring list"
  unfollowBtns :: "jsstring list"
  allButtons :: "button list"

text \<open>\<^verbatim>\<open>[data-testid="tweet"]\<close>.\<close>

definition isTweet :: "element \<Rightarrow> bool" where
  "isTweet e = (getAttribute e (js ''data-testid'') = Some (js ''tweet''))"

text \<open>\<^verbatim>\<open>/^(.+)-unfollow$/\<close>: the captured prefix, when the string matches.\<close>

definition unfollowMatch :: "jsstring \<Rightarrow> jsstring option" where
  "unfollowMatch s =
     (let n = length s - 9
      in if 9 < length s \<and> drop n s = js ''-unfollow'' \<and> \<not> list_ex isLineTerminator (take n s)
         then Some (take n s) else None)"

definition isOnFollowingTab :: "state \<Rightarrow> page \<Rightarrow> bool \<times> state" where
  "isOnFollowingTab st pg =
     (case onFollowingTab st of
        Some cached \<Rightarrow> (cached, st)
      | None \<Rightarrow>
          if \<not> (pathname pg = js ''/'' \<or> pathname pg = js ''/home'')
          then (False, st\<lparr>onFollowingTab := Some False\<rparr>)
          else if list_ex (\<lambda>tab. list_ex (\<lambda>kw. str_includes (toLowerCase (trim tab)) (toLowerCase kw))
                                     FOLLOWING_KEYWORDS)
                    (selectedTabs pg)
          then (True, st\<lparr>onFollowingTab := Some True\<rparr>)
          else (False, st\<lparr>onFollowingTab := Some False\<rparr>))"

definition markIfUsername :: "state \<Rightarrow> jsstring option \<Rightarrow> state" where
  "markIfUsername st username =
     (case username of
        None \<Rightarrow> st
      | Some u \<Rightarrow> if u \<noteq> [] then markAsFollowed st u else st)"

text \<open>
  \<open>scanPageForFollowedUsers\<close> reads its signals one after the other; each is a
  definition here, in the order of the source.
\<close>

definition followingTabSignal :: "state \<Rightarrow> page \<Rightarrow> state" where
  "followingTabSignal st pg =
     (let (onTab, st1) = isOnFollowingTab st pg
      in if onTab
         then foldl (\<lambda>s tweet. markIfUsername s (extractUsername (childNodes tweet))) st1
                (filter isTweet (preorder (body st1)))
         else st1)"

definition unfollowButtonsSignal :: "state \<Rightarrow> page \<Rightarrow> state" where
  "unfollowButtonsSignal st pg =
     foldl (\<lambda>s testId.
              case unfollowMatch testId of
                None \<Rightarrow> s
              | Some m \<Rightarrow> markAsFollowed s (toLowerCase m))
       st (unfollowBtns pg)"

definition isFollowing :: "button \<Rightarrow> bool" where
  "isFollowing btn =
     (let text = toLowerCase (trim (btnText btn));
          ariaLabel = toLowerCase (case btnAriaLabel btn of None \<Rightarrow> [] | Some l \<Rightarrow> l)
      in list_ex (\<lambda>kw. text = toLowerCase kw \<or> str_includes ariaLabel (toLowerCase kw))
           FOLLOWING_KEYWORDS)"

definition followingButtonsSignal :: "state \<Rightarrow> page \<Rightarrow> state" where
  "followingButtonsSignal st pg =
     foldl (\<lambda>s btn.
              if \<not> isFollowing btn then s
              else (case btnContainer btn of
                      None \<Rightarrow> s
                    | Some ks \<Rightarrow> markIfUsername s (extractUsername ks)))
       st (allButtons pg)"

definition profileHeaderSignal :: "state \<Rightarrow> page \<Rightarrow> state" where
  "profileHeaderSignal st pg =
     (case bareProfile (pathname pg) of
        None \<Rightarrow> st
      | Some m \<Rightarrow>
          let profileUser = toLowerCase m
          in if list_ex (\<lambda>t. t = m @ js ''-unfollow'' \<or> t = profileUser @ js ''-unfollow'')
                  (unfollowBtns pg)
             then markAsFollowed st profileUser
             else st)"

definition scanPageForFollowedUsers :: "state \<Rightarrow> page \<Rightarrow> state" where
  "scanPageForFollowedUsers st pg =
     profileHeaderSignal
       (followingButtonsSignal (unfollowButtonsSignal (followingTabSignal st pg) pg) pg) pg"

section \<open>Hiding and restoring\<close>

definition BADGE_LABELS :: "state \<Rightarrow> BADGE_TYPES \<Rightarrow> jsstring" where
  "BADGE_LABELS st t =
     (case t of
        BLUE \<Rightarrow> getMessage st (js ''badgeBlue'') []
      | GOLD \<Rightarrow> getMessage st (js ''badgeGold'') []
      | GRAY \<Rightarrow> getMessage st (js ''badgeGray'') [])"

definition placeholderBar :: "state \<Rightarrow> BADGE_TYPES \<Rightarrow> element" where
  "placeholderBar st badgeType =
     (let dot = pageElement 0 (js ''SPAN'')
                  [(js ''class'',
                    js ''block-blue-placeholder-dot block-blue-placeholder-dot--'' @ badgeName badgeType)]
                  [] [] [];
          label = (if BADGE_LABELS st badgeType \<noteq> [] then BADGE_LABELS st badgeType
                   else getMessage st (js ''badgeVerified'') []);
          text = pageElement 0 (js ''SPAN'') [] (getMessage st (js ''placeholderBlocked'') [label])
                   [] [];
          show = pageElement 0 (js ''SPAN'') [(js ''class'', js ''block-blue-placeholder-show'')]
                   (getMessage st (js ''placeholderShow'') []) [] []
      in pageElement 0 (js ''DIV'') [(js ''class'', js ''block-blue-placeholder'')] [] []
           [dot, text, show])"

text \<open>
  \<open>replaceWithPlaceholder\<close> moves the children into a fragment, keeps the fragment
  and the padding on the element, sets the replaced marker and appends the bar;
  \<open>restoreElement\<close> returns at once when there is no fragment, and otherwise empties
  the element, appends the fragment's children, removes the marker, assigns the saved
  padding and deletes both properties.
\<close>

fun replaceWithPlaceholder :: "state \<Rightarrow> element \<Rightarrow> BADGE_TYPES \<Rightarrow> element" where
  "replaceWithPlaceholder st (Element i t a x c ks p r pad orig opad) badgeType =
     Element i t a x c [placeholderBar st badgeType] p True pad (Some ks) (Some pad)"

fun restoreElement :: "element \<Rightarrow> element" where
  "restoreElement (Element i t a x c ks p r pad orig opad) =
     (case orig of
        None \<Rightarrow> Element i t a x c ks p r pad orig opad
      | Some original \<Rightarrow>
          Element i t a x c original p False (case opad of None \<Rightarrow> [] | Some saved \<Rightarrow> saved)
            None None)"

text \<open>
  \<open>restoreElement\<close> on the element that a reference denotes: a click on a placeholder
  bar, or one round of the restoring loop of \<open>rescanAll\<close>. A reference to a node that
  is no longer below the body has nothing to act on.
\<close>

definition restoreAt :: "state \<Rightarrow> nat \<Rightarrow> state" where
  "restoreAt st ref =
     (case lookup ref (body st) of
        None \<Rightarrow> st
      | Some (path, element) \<Rightarrow> st\<lparr>body := modifyAt path restoreElement (body st)\<rparr>)"

section \<open>Core processing\<close>

fun firstBadgeType :: "(element \<times> tag list) list \<Rightarrow> BADGE_TYPES option" where
  "firstBadgeType [] = None"
| "firstBadgeType (svg # svgs) =
     (if \<not> isVerifiedBadge (fst svg) then firstBadgeType svgs
      else if closestStatusLink svg \<noteq> None then firstBadgeType svgs
      else (case getBadgeColorType (fst svg) of
              Some badgeType \<Rightarrow> Some badgeType
            | None \<Rightarrow> firstBadgeType svgs))"

definition getBlockBadgeType :: "state \<Rightarrow> container \<Rightarrow> BADGE_TYPES option" where
  "getBlockBadgeType st element =
     (if \<not> enabled (settings st) then None
      else case firstBadgeType (querySelectorAll_svg element) of
        None \<Rightarrow> None
      | Some badgeType \<Rightarrow>
          if badgeType = BLUE \<and> \<not> hideBlue (settings st) then None
          else if badgeType = GOLD \<and> \<not> hideGold (settings st) then None
          else if badgeType = GRAY \<and> \<not> hideGray (settings st) then None
          else
            let username = extractUsername (content element)
            in if (case username of None \<Rightarrow> False
                   | Some u \<Rightarrow> u \<noteq> [] \<and> u \<in> whitelistSet st) then None
               else if (case username of None \<Rightarrow> False
                        | Some u \<Rightarrow> u \<noteq> [] \<and> u \<in> followedUsersSet st) then None
               else Some badgeType)"

subsection \<open>The decision as a call\<close>

text \<open>
  The same functions as the script runs them: a call starts in a state and ends in a
  state, and gives its value. The state is handed from each statement to the next and
  through every call, the way the script's globals and the document are there for any
  function to write. \<open>isVerifiedBadge\<close>, \<open>getBadgeColorType\<close> and
  \<open>extractUsername\<close> consist of reads of the element they are given; the loop and the
  decision call them and read \<^verbatim>\<open>settings\<close>, \<^verbatim>\<open>whitelistSet\<close> and
  \<^verbatim>\<open>followedUsersSet\<close> in the state they have reached.
\<close>

type_synonym 'a call = "state \<Rightarrow> 'a \<times> state"

definition isVerifiedBadge_call :: "element \<Rightarrow> bool call" where
  "isVerifiedBadge_call svg st = (isVerifiedBadge svg, st)"

definition getBadgeColorType_call :: "element \<Rightarrow> BADGE_TYPES option call" where
  "getBadgeColorType_call svg st = (getBadgeColorType svg, st)"

definition extractUsername_call :: "element list \<Rightarrow> jsstring option call" where
  "extractUsername_call ks st = (extractUsername ks, st)"

fun firstBadgeType_call :: "(element \<times> tag list) list \<Rightarrow> BADGE_TYPES option call" where
  "firstBadgeType_call [] st = (None, st)"
| "firstBadgeType_call (svg # svgs) st =
     (case isVerifiedBadge_call (fst svg) st of
        (isBadge, st1) \<Rightarrow>
          if \<not> isBadge then firstBadgeType_call svgs st1
          else if closestStatusLink svg \<noteq> None then firstBadgeType_call svgs st1
          else (case getBadgeColorType_call (fst svg) st1 of
                  (Some badgeType, st2) \<Rightarrow> (Some badgeType, st2)
                | (None, st2) \<Rightarrow> firstBadgeType_call svgs st2))"

definition getBlockBadgeType_call :: "container \<Rightarrow> BADGE_TYPES option call" where
  "getBlockBadgeType_call element st =
     (if \<not> enabled (settings st) then (None, st)
      else case firstBadgeType_call (querySelectorAll_svg element) st of
        (None, st1) \<Rightarrow> (None, st1)
      | (Some badgeType, st1) \<Rightarrow>
          if badgeType = BLUE \<and> \<not> hideBlue (settings st1) then (None, st1)
          else if badgeType = GOLD \<and> \<not> hideGold (settings st1) then (None, st1)
          else if badgeType = GRAY \<and> \<not> hideGray (settings st1) then (None, st1)
          else
            (case extractUsername_call (content element) st1 of
               (username, st2) \<Rightarrow>
                 if (case username of None \<Rightarrow> False
                     | Some u \<Rightarrow> u \<noteq> [] \<and> u \<in> whitelistSet st2) then (None, st2)
                 else if (case username of None \<Rightarrow> False
                          | Some u \<Rightarrow> u \<noteq> [] \<and> u \<in> followedUsersSet st2) then (None, st2)
                 else (Some badgeType, st2)))"

text \<open>
  \<open>processElement st ref\<close> processes the element that \<open>ref\<close> denotes. It sets
  the processed marker in the document, calls the decision on the element as it then is,
  and on a tier hides the element and counts it. A reference to a node that is not below
  the body has nothing to act on.
\<close>

definition processElement :: "state \<Rightarrow> nat \<Rightarrow> state" where
  "processElement st ref =
     (case lookup ref (body st) of
        None \<Rightarrow> st
      | Some (path, element) \<Rightarrow>
          if processed (node element) then st
          else
            let st1 = st\<lparr>body := modifyAt path (setProcessed True) (body st)\<rparr>
            in (case getBlockBadgeType_call (element\<lparr>node := setProcessed True (node element)\<rparr>) st1 of
                  (None, st2) \<Rightarrow> st2
                | (Some badgeType, st2) \<Rightarrow>
                    st2\<lparr>body := modifyAt path (\<lambda>e. replaceWithPlaceholder st2 e badgeType) (body st2),
                        hiddenCount := increment (hiddenCount st2)\<rparr>))"

text \<open>
  A node handed to \<open>processTree\<close>: a node that is no element, an element that is no
  \<^verbatim>\<open>HTMLElement\<close>, or an \<^verbatim>\<open>HTMLElement\<close> given by its reference. The root is
  processed first when it is a container itself; the containers below it are listed after
  that, and the list is static.
\<close>

datatype node = OtherNode | OtherElement | HTMLElement nat

definition processTree :: "state \<Rightarrow> node \<Rightarrow> state" where
  "processTree st root =
     (case root of
        HTMLElement ref \<Rightarrow>
          (case lookup ref (body st) of
             None \<Rightarrow> st
           | Some (path, element) \<Rightarrow>
               let st1 = (if matchesSelectors (node element) then processElement st ref else st);
                   elements = (case lookup ref (body st1) of
                                 None \<Rightarrow> []
                               | Some (path1, element1) \<Rightarrow> querySelectorAll_SELECTORS (node element1))
               in foldl processElement st1 elements)
      | _ \<Rightarrow> st)"

section \<open>Re-scan and mutation observer\<close>

definition startObserver :: "state \<Rightarrow> state" where
  "startObserver st = st\<lparr>observer := True\<rparr>"

definition stopObserver :: "state \<Rightarrow> state" where
  "stopObserver st = (if observer st then st\<lparr>observer := False\<rparr> else st)"

text \<open>
  The two loops of \<open>rescanAll\<close>. Each runs over the static list of one
  \<^verbatim>\<open>document.querySelectorAll\<close>: the elements in the document that carry the marker
  at the moment of the query, in document order. An element held by a fragment is not in
  the document and not in the list.
\<close>

definition restoreReplaced :: "state \<Rightarrow> state" where
  "restoreReplaced st = foldl restoreAt st (map nodeId (filter replaced (preorder (body st))))"

definition removeProcessedAt :: "state \<Rightarrow> nat \<Rightarrow> state" where
  "removeProcessedAt st ref =
     (case lookup ref (body st) of
        None \<Rightarrow> st
      | Some (path, element) \<Rightarrow> st\<lparr>body := modifyAt path (setProcessed False) (body st)\<rparr>)"

definition clearProcessed :: "state \<Rightarrow> state" where
  "clearProcessed st =
     foldl removeProcessedAt st (map nodeId (filter processed (preorder (body st))))"

definition rescanAll :: "state \<Rightarrow> page \<Rightarrow> state" where
  "rescanAll st pg =
     (let st1 = scanPageForFollowedUsers (st\<lparr>onFollowingTab := None\<rparr>) pg;
          st2 = restoreReplaced st1;
          st3 = clearProcessed st2;
          st4 = st3\<lparr>hiddenCount := 0\<rparr>;
          st5 = (if enabled (settings st4)
                 then startObserver (processTree st4 (HTMLElement (nodeId (body st4))))
                 else stopObserver st4)
      in debouncedSaveHiddenCount st5)"

definition isElementNode :: "node \<Rightarrow> bool" where
  "isElementNode n = (n \<noteq> OtherNode)"

text \<open>A mutation record is the list of its added nodes.\<close>

definition handleMutations :: "state \<Rightarrow> page \<Rightarrow> node list list \<Rightarrow> state" where
  "handleMutations st pg mutations =
     (if \<not> enabled (settings st) \<or> \<not> isContextValid st then st
      else
        let st1 = scanPageForFollowedUsers st pg;
            st2 = foldl (\<lambda>s mutation.
                           foldl (\<lambda>s' n. if isElementNode n then processTree s' n else s') s mutation)
                    st1 mutations
        in debouncedSaveHiddenCount st2)"

section \<open>Notions used in the statements\<close>

text \<open>The accessible label of an element: its \<^verbatim>\<open>aria-label\<close>, or the empty string.\<close>

definition accessibleLabel :: "element \<Rightarrow> jsstring" where
  "accessibleLabel e = (case getAttribute e (js ''aria-label'') of None \<Rightarrow> [] | Some l \<Rightarrow> l)"

text \<open>
  A graphic element qualifies when it is a badge and no permalink-shaped link is around
  it. \<open>first_qualifying_tier\<close> follows the wording of the specification: the tier of
  the first qualifying badge, and the enumeration stops there.
\<close>

definition qualifies :: "element \<times> tag list \<Rightarrow> bool" where
  "qualifies svg = (isVerifiedBadge (fst svg) \<and> closestStatusLink svg = None)"

definition first_qualifying_tier :: "container \<Rightarrow> BADGE_TYPES option" where
  "first_qualifying_tier element =
     (case filter qualifies (querySelectorAll_svg element) of
        [] \<Rightarrow> None
      | svg # rest \<Rightarrow> getBadgeColorType (fst svg))"

text \<open>
  Every element below an element, itself included: the subtree, and all that the
  fragments in it hold.
\<close>

fun allNodes :: "element \<Rightarrow> element list" where
  "allNodes (Element i t a x c ks p r pad orig opad) =
     Element i t a x c ks p r pad orig opad # concat (map allNodes ks)
       @ (case orig of None \<Rightarrow> [] | Some hs \<Rightarrow> concat (map allNodes hs))"

text \<open>
  The marker invariant of an element: replaced implies processed, and the replaced
  marker is there exactly when the element holds its original children. The invariant of
  a state asks it of every element, in the document or held.
\<close>

definition marker_inv :: "element \<Rightarrow> bool" where
  "marker_inv e =
     ((replaced e \<longrightarrow> processed e) \<and> (replaced e \<longleftrightarrow> blockBlueOriginal e \<noteq> None))"

definition invariant :: "state \<Rightarrow> bool" where
  "invariant st = list_all marker_inv (allNodes (body st))"

text \<open>
  An element by itself: its identity, its markers, its padding, and which nodes are its
  children and which ones it holds.
\<close>

definition own ::
  "element \<Rightarrow> nat \<times> bool \<times> bool \<times> jsstring \<times> nat list \<times> nat list option \<times> jsstring option" where
  "own e =
     (nodeId e, processed e, replaced e, padding e, map nodeId (childNodes e),
      map_option (map nodeId) (blockBlueOriginal e), blockBlueOriginalPadding e)"

text \<open>
  \<open>keepsProcessed st st'\<close>: every element that is processed in \<open>st\<close> is there
  in \<open>st'\<close> as it was by itself.
\<close>

definition keepsProcessed :: "state \<Rightarrow> state \<Rightarrow> bool" where
  "keepsProcessed st st' =
     (\<forall>x \<in> set (allNodes (body st)). processed x \<longrightarrow> own x \<in> own ` set (allNodes (body st')))"

text \<open>
  What the follow tracker may change: the follow cache, which can only grow, its timer
  and the cached tab flag. Everything else stays as it is.
\<close>

definition tracker_step :: "state \<Rightarrow> state \<Rightarrow> bool" where
  "tracker_step st st' =
     (followedUsersSet st \<subseteq> followedUsersSet st' \<and> body st' = body st
      \<and> settings st' = settings st \<and> whitelistSet st' = whitelistSet st
      \<and> hiddenCount st' = hiddenCount st \<and> observer st' = observer st
      \<and> runtimeId st' = runtimeId st \<and> getMessage st' = getMessage st
      \<and> saveTimer st' = saveTimer st)"

text \<open>The walk of \<open>handleMutations\<close> over the added nodes of all mutation records.\<close>

definition walkAdded :: "state \<Rightarrow> node list list \<Rightarrow> state" where
  "walkAdded st mutations =
     foldl (\<lambda>s mutation.
              foldl (\<lambda>s' n. if isElementNode n then processTree s' n else s') s mutation)
       st mutations"

text \<open>
  The decimal digits of a number, and the colour string \<^verbatim>\<open>rgb(r, g, b)\<close> as the
  browser serialises a resolved colour.
\<close>

fun decimal :: "nat \<Rightarrow> jsstring" where
  "decimal n = (if n < 10 then [48 + n] else decimal (n div 10) @ [48 + n mod 10])"

declare decimal.simps [simp del]

definition rgbString :: "nat \<Rightarrow> nat \<Rightarrow> nat \<Rightarrow> jsstring" where
  "rgbString r g b =
     js ''rgb('' @ decimal r @ js '', '' @ decimal g @ js '', '' @ decimal b @ js '')''"

section \<open>An example page\<close>

text \<open>
  A badge as the page draws it (a 22 by 22 graphic with two paths, no label) in a given
  colour, a profile link, a post and a profile card holding given children, and the state
  the script starts in on a body with given children, with a message catalogue that
  answers each message name by itself. The body has the identity 1; nodes that no
  reference is taken to carry 0.
\<close>

definition badge :: "jsstring \<Rightarrow> element" where
  "badge col =
     pageElement 0 (js ''svg'') [(js ''viewBox'', js ''0 0 22 22'')] [] col
       [pageElement 0 (js ''path'') [] [] [] [], pageElement 0 (js ''path'') [] [] [] []]"

definition profileLink :: "jsstring \<Rightarrow> element" where
  "profileLink handle =
     pageElement 0 (js ''A'') [(js ''role'', js ''link''), (js ''href'', js ''/'' @ handle)] [] [] []"

definition article :: "nat \<Rightarrow> element list \<Rightarrow> element" where
  "article i ks = pageElement i (js ''ARTICLE'') [(js ''data-testid'', js ''tweet'')] [] [] ks"

definition userCell :: "nat \<Rightarrow> element list \<Rightarrow> element" where
  "userCell i ks = pageElement i (js ''DIV'') [(js ''data-testid'', js ''UserCell'')] [] [] ks"

definition startState :: "element list \<Rightarrow> state" where
  "startState ks =
     \<lparr>getMessage = (\<lambda>name subs. name), runtimeId = True,
      settings = \<lparr>enabled = True, hideBlue = True, hideGold = False, hideGray = False,
                  whitelist = []\<rparr>,
      whitelistSet = {}, followedUsersSet = {}, followedSaveTimer = None, hiddenCount = 0,
      observer = False, saveTimer = None, onFollowingTab = None,
      body = pageElement 1 (js ''BODY'') [] [] [] ks\<rparr>"

definition emptyPage :: page where
  "emptyPage = \<lparr>pathname = js ''/home'', selectedTabs = [], unfollowBtns = [], allButtons = []\<rparr>"

text \<open>A post with the identity 2 as the script finds it right below the body.\<close>

definition tweet :: "element list \<Rightarrow> container" where
  "tweet ks = \<lparr>node = article 2 ks, above = [(js ''BODY'', [])], connected = True\<rparr>"

text \<open>
  Two posts by Alice: one whose only badges have a colour no bucket takes, and one with
  such a badge in front of a blue one.
\<close>

definition plainTweet :: container where
  "plainTweet =
     tweet [badge (js ''rgb(0, 0, 0)''), badge (js ''rgb(0, 0, 0)''), profileLink (js ''Alice'')]"

definition blueTweet :: container where
  "blueTweet =
     tweet [badge (js ''rgb(0, 0, 0)''), badge (js ''rgb(29, 155, 240)''),
            profileLink (js ''Alice'')]"

text \<open>
  A post by Alice with a blue badge that has Bob's profile card, with a blue badge of its
  own, inside it.
\<close>

definition bobCell :: element where
  "bobCell = userCell 3 [badge (js ''rgb(29, 155, 240)''), profileLink (js ''Bob'')]"

definition nestedTweet :: element where
  "nestedTweet =
     article 2 [badge (js ''rgb(29, 155, 240)''), profileLink (js ''Alice''), bobCell]"

text \<open>
  The same page after the script has hidden the card and then the post around it, and
  after it has saved the count: the card, placeholder and all, lies in the fragment that
  the post holds.
\<close>

definition hiddenCell :: element where
  "hiddenCell = replaceWithPlaceholder (startState []) (setProcessed True bobCell) BLUE"

definition hiddenTweet :: element where
  "hiddenTweet =
     replaceWithPlaceholder (startState [])
       (setProcessed True
          (article 2 [badge (js ''rgb(29, 155, 240)''), profileLink (js ''Alice''), hiddenCell]))
       BLUE"

definition nestedHidden :: state where
  "nestedHidden =
     (startState [hiddenTweet])\<lparr>hiddenCount := 2, saveTimer := Some 1000, onFollowingTab := Some False\<rparr>"

section \<open>Evaluation of the example page\<close>

lemmas string_defs = js_def toLowerCase_def lowerUnit_def isSpace_def isDigit_def isWordUnit_def
  isLineTerminator_def trim_def parseInt10_def

lemmas rgb_defs = rgbHere_def rgbNumber_def

lemmas dom_defs = startTag_def getAttribute_def descendants_def hasType_def matchesStatusLink_def
  closestStatusLink_def matchesRoleLink_def inside_def querySelectorAll_svg_def
  querySelectorAll_roleLink_def self_def content_def pageElement_def

lemma isVerifiedBadge_badge: "isVerifiedBadge (badge col)"
  by (simp add: isVerifiedBadge_def badge_def string_defs dom_defs)

lemma color_badge: "color (badge col) = col"
  by (simp add: badge_def pageElement_def)

lemma rgbMatch_blue: "rgbMatch (js ''rgb(29, 155, 240)'') = Some (29, 155, 240)"
  by (simp add: string_defs rgb_defs)

lemma rgbMatch_black: "rgbMatch (js ''rgb(0, 0, 0)'') = Some (0, 0, 0)"
  by (simp add: string_defs rgb_defs)

lemma getBadgeColorType_blue: "getBadgeColorType (badge (js ''rgb(29, 155, 240)'')) = Some BLUE"
  by (simp add: getBadgeColorType_def color_badge rgbMatch_blue)

lemma getBadgeColorType_black: "getBadgeColorType (badge (js ''rgb(0, 0, 0)'')) = None"
  by (simp add: getBadgeColorType_def color_badge rgbMatch_black)

lemma svgs_of_tweet:
  "querySelectorAll_svg (tweet [badge c1, badge c2, profileLink h]) =
     [(badge c1, [(js ''ARTICLE'', [(js ''data-testid'', js ''tweet'')]), (js ''BODY'', [])]),
      (badge c2, [(js ''ARTICLE'', [(js ''data-testid'', js ''tweet'')]), (js ''BODY'', [])])]"
  by (simp add: dom_defs badge_def profileLink_def tweet_def article_def string_defs)

lemma qualifies_badge:
  "qualifies (badge col, [(js ''ARTICLE'', [(js ''data-testid'', js ''tweet'')]), (js ''BODY'', [])])"
  by (simp add: qualifies_def isVerifiedBadge_badge)
     (simp add: dom_defs badge_def string_defs)

lemma extractUsername_tweet:
  "extractUsername (content (tweet [badge c1, badge c2, profileLink (js ''Alice'')])) = Some (js ''alice'')"
  by (simp add: extractUsername_def dom_defs badge_def profileLink_def tweet_def article_def
      string_defs bareProfile_def)

lemma firstBadgeType_two:
  "firstBadgeType (querySelectorAll_svg
     (tweet [badge (js ''rgb(0, 0, 0)''), badge (js ''rgb(29, 155, 240)''), profileLink h])) = Some BLUE"
  using qualifies_badge
  by (simp add: svgs_of_tweet isVerifiedBadge_badge getBadgeColorType_blue
      getBadgeColorType_black qualifies_def)

lemma getBlockBadgeType_two:
  "getBlockBadgeType (startState cs)
     (tweet [badge (js ''rgb(0, 0, 0)''), badge (js ''rgb(29, 155, 240)''), profileLink (js ''Alice'')])
   = Some BLUE"
  by (simp add: getBlockBadgeType_def firstBadgeType_two extractUsername_tweet)
     (simp add: startState_def)

section \<open>Strings and the badge classifier\<close>

lemma str_includes_sublist: "str_includes s sub \<longleftrightarrow> sublist sub s"
  by (induction s) (auto simp: sublist_Cons_right)

lemma str_includes_iff: "str_includes s sub \<longleftrightarrow> (\<exists>pre post. s = pre @ sub @ post)"
  by (simp add: str_includes_sublist sublist_def)

lemma toLowerCase_includes_iff:
  "str_includes (toLowerCase s) kw \<longleftrightarrow> (\<exists>pre w post. s = pre @ w @ post \<and> toLowerCase w = kw)"
proof
  assume "str_includes (toLowerCase s) kw"
  then obtain p q where "map lowerUnit s = p @ kw @ q"
    by (auto simp: str_includes_iff toLowerCase_def)
  then have "\<exists>pre w post. s = pre @ w @ post \<and> map lowerUnit w = kw"
    by (metis map_eq_append_conv)
  then show "\<exists>pre w post. s = pre @ w @ post \<and> toLowerCase w = kw"
    by (simp add: toLowerCase_def)
next
  assume "\<exists>pre w post. s = pre @ w @ post \<and> toLowerCase w = kw"
  then obtain pre w post where "s = pre @ w @ post" and "toLowerCase w = kw"
    by blast
  then have "toLowerCase s = toLowerCase pre @ kw @ toLowerCase post"
    by (simp add: toLowerCase_def)
  then show "str_includes (toLowerCase s) kw"
    unfolding str_includes_iff by blast
qed

lemma VERIFIED_KEYWORDS_lower: "kw \<in> set VERIFIED_KEYWORDS \<Longrightarrow> toLowerCase kw = kw"
  by (auto simp: VERIFIED_KEYWORDS_def string_defs)

lemma VERIFIED_KEYWORDS_nonempty: "kw \<in> set VERIFIED_KEYWORDS \<Longrightarrow> kw \<noteq> []"
  by (auto simp: VERIFIED_KEYWORDS_def string_defs)

lemma preorder_withAncestors: "map fst (withAncestors anc e) = preorder e"
proof (induction e arbitrary: anc)
  case (Element i t a x c ks p r pad orig opad)
  have kids: "map (\<lambda>k. map fst (withAncestors ((t, a) # anc) k)) ks = map preorder ks"
    by (rule map_cong) (simp_all add: Element.IH)
  show ?case by (simp add: map_concat comp_def kids)
qed

lemma firstBadgeType_find:
  "firstBadgeType svgs =
     (case find (\<lambda>svg. qualifies svg \<and> getBadgeColorType (fst svg) \<noteq> None) svgs of
        None \<Rightarrow> None
      | Some svg \<Rightarrow> getBadgeColorType (fst svg))"
  by (induction svgs) (auto simp: qualifies_def split: option.splits)

section \<open>Identity\<close>

lemma bareProfile_nonempty: "bareProfile href = Some m \<Longrightarrow> m \<noteq> []"
  by (auto simp: bareProfile_def split: list.splits if_splits)

lemma firstUsername_nonempty: "firstUsername links = Some u \<Longrightarrow> u \<noteq> []"
  by (induction links)
     (auto simp: toLowerCase_def split: option.splits if_splits dest: bareProfile_nonempty)

lemma extractUsername_nonempty: "extractUsername ks = Some u \<Longrightarrow> u \<noteq> []"
  unfolding extractUsername_def by (rule firstUsername_nonempty)


section \<open>Frame lemmas\<close>

lemma foldl_preserve:
  assumes "\<And>s x. P s \<Longrightarrow> P (f s x)" and "P s"
  shows "P (foldl f s xs)"
  using assms(2) by (induction xs arbitrary: s) (auto intro: assms(1))

lemma tracker_step_refl: "tracker_step st st"
  by (simp add: tracker_step_def)

lemma tracker_step_trans: "tracker_step a b \<Longrightarrow> tracker_step b c \<Longrightarrow> tracker_step a c"
  by (auto simp: tracker_step_def)

lemma tracker_step_foldl:
  assumes "\<And>s x. tracker_step s (f s x)"
  shows "tracker_step st (foldl f st xs)"
  by (rule foldl_preserve [where P = "tracker_step st"])
     (auto intro: tracker_step_trans assms tracker_step_refl)

lemma markAsFollowed_step: "tracker_step st (markAsFollowed st u)"
  by (auto simp: tracker_step_def markAsFollowed_def debouncedSaveFollowedUsers_def)

lemma markIfUsername_step: "tracker_step st (markIfUsername st u)"
  by (auto simp: markIfUsername_def tracker_step_refl markAsFollowed_step split: option.splits)

lemma isOnFollowingTab_step: "tracker_step st (snd (isOnFollowingTab st pg))"
  by (auto simp: isOnFollowingTab_def tracker_step_def split: option.splits)

lemma followingTabSignal_step: "tracker_step st (followingTabSignal st pg)"
proof -
  obtain onTab st1 where tab: "isOnFollowingTab st pg = (onTab, st1)"
    by (cases "isOnFollowingTab st pg")
  then have first: "tracker_step st st1"
    using isOnFollowingTab_step [of st pg] by simp
  have "tracker_step st1
      (foldl (\<lambda>s tweet. markIfUsername s (extractUsername (childNodes tweet))) st1
         (filter isTweet (preorder (body st1))))"
    by (rule tracker_step_foldl) (rule markIfUsername_step)
  then have "tracker_step st
      (foldl (\<lambda>s tweet. markIfUsername s (extractUsername (childNodes tweet))) st1
         (filter isTweet (preorder (body st1))))"
    by (rule tracker_step_trans [OF first])
  then show ?thesis
    using first by (simp add: followingTabSignal_def tab)
qed

lemma unfollowButtonsSignal_step: "tracker_step st (unfollowButtonsSignal st pg)"
  unfolding unfollowButtonsSignal_def
proof (rule tracker_step_foldl)
  fix s x
  show "tracker_step s (case unfollowMatch x of None \<Rightarrow> s
                        | Some m \<Rightarrow> markAsFollowed s (toLowerCase m))"
    by (cases "unfollowMatch x") (simp_all add: markAsFollowed_step tracker_step_refl)
qed

lemma followingButtonsSignal_step: "tracker_step st (followingButtonsSignal st pg)"
  unfolding followingButtonsSignal_def
proof (rule tracker_step_foldl)
  fix s btn
  show "tracker_step s (if \<not> isFollowing btn then s
              else (case btnContainer btn of
                      None \<Rightarrow> s
                    | Some ks \<Rightarrow> markIfUsername s (extractUsername ks)))"
    by (cases "btnContainer btn") (simp_all add: markIfUsername_step tracker_step_refl)
qed

lemma profileHeaderSignal_step: "tracker_step st (profileHeaderSignal st pg)"
  by (cases "bareProfile (pathname pg)")
     (simp_all add: profileHeaderSignal_def Let_def markAsFollowed_step tracker_step_refl)

lemma scanPageForFollowedUsers_step: "tracker_step st (scanPageForFollowedUsers st pg)"
  unfolding scanPageForFollowedUsers_def
  by (rule tracker_step_trans [OF followingTabSignal_step
        tracker_step_trans [OF unfollowButtonsSignal_step
          tracker_step_trans [OF followingButtonsSignal_step profileHeaderSignal_step]]])

section \<open>The decision reads, the scan writes\<close>

lemma firstBadgeType_call_eq: "firstBadgeType_call svgs st = (firstBadgeType svgs, st)"
  by (induction svgs)
     (auto simp: isVerifiedBadge_call_def getBadgeColorType_call_def split: option.splits)

lemma getBlockBadgeType_call_eq:
  "getBlockBadgeType_call element st = (getBlockBadgeType st element, st)"
  by (auto simp: getBlockBadgeType_call_def getBlockBadgeType_def firstBadgeType_call_eq
      extractUsername_call_def Let_def split: option.splits)

lemma getBlockBadgeType_reads:
  "settings st' = settings st \<Longrightarrow> whitelistSet st' = whitelistSet st \<Longrightarrow>
   followedUsersSet st' = followedUsersSet st \<Longrightarrow>
   getBlockBadgeType st' element = getBlockBadgeType st element"
  by (auto simp: getBlockBadgeType_def Let_def split: option.splits)

lemma placeholderBar_reads:
  "getMessage st' = getMessage st \<Longrightarrow> placeholderBar st' badgeType = placeholderBar st badgeType"
  by (cases badgeType) (simp_all add: placeholderBar_def BADGE_LABELS_def)

lemma replaceWithPlaceholder_reads:
  "getMessage st' = getMessage st \<Longrightarrow>
   replaceWithPlaceholder st' e badgeType = replaceWithPlaceholder st e badgeType"
  using placeholderBar_reads [of st' st badgeType] by (cases e) simp

subsection \<open>Rewriting the tree\<close>

lemma modifyAt_length [simp]:
  "length (childNodes (modifyAt (s # path) f e)) = length (childNodes e)"
  by (cases s; cases e) (auto split: option.splits)

lemma modifyAt_modifyAt:
  "modifyAt path g (modifyAt path f t) = modifyAt path (\<lambda>e. g (f e)) t"
proof (induction path arbitrary: t)
  case Nil
  show ?case by simp
next
  case (Cons s path)
  show ?case
    by (cases s; cases t) (auto simp: Cons.IH split: option.splits)
qed

lemma nodeId_modifyAt:
  assumes "\<And>e. nodeId (f e) = nodeId e"
  shows "nodeId (modifyAt path f t) = nodeId t"
proof (cases path)
  case Nil
  then show ?thesis by (simp add: assms)
next
  case (Cons s rest)
  show ?thesis
    by (cases s; cases t) (auto simp: Cons split: option.splits)
qed

lemma elementAt_allNodes:
  "elementAt path anc conn t = Some c \<Longrightarrow> node c \<in> set (allNodes t)"
proof (induction path arbitrary: anc conn t)
  case Nil
  then show ?case by (cases t) auto
next
  case (Cons s path)
  show ?case
  proof (cases s)
    case (Child n)
    with Cons.prems have n: "n < length (childNodes t)"
      and at: "elementAt path (startTag t # anc) conn (childNodes t ! n) = Some c"
      by (auto split: if_splits)
    from Cons.IH [OF at] n show ?thesis
      by (cases t) (auto intro!: bexI [of _ "childNodes t ! n"])
  next
    case (Held n)
    with Cons.prems obtain hs where hs: "blockBlueOriginal t = Some hs" and n: "n < length hs"
      and at: "elementAt path [] False (hs ! n) = Some c"
      by (auto split: option.splits if_splits)
    from Cons.IH [OF at] n hs show ?thesis
      by (cases t) (auto intro!: bexI [of _ "hs ! n"])
  qed
qed

lemma lookup_allNodes:
  "lookup ref tree = Some (path, c) \<Longrightarrow> node c \<in> set (allNodes tree)"
  by (auto simp: lookup_def split: option.splits dest: elementAt_allNodes)

lemma allNodes_update:
  "x \<in> set (concat (map allNodes (ks[n := k]))) \<Longrightarrow>
   x \<in> set (allNodes k) \<or> x \<in> set (concat (map allNodes ks))"
  by (auto dest: set_update_subset_insert [THEN subsetD])

lemma setChildNodes_sel [simp]:
  "childNodes (setChildNodes ks e) = ks"
  "blockBlueOriginal (setChildNodes ks e) = blockBlueOriginal e"
  "processed (setChildNodes ks e) = processed e"
  "replaced (setChildNodes ks e) = replaced e"
  "nodeId (setChildNodes ks e) = nodeId e"
  "padding (setChildNodes ks e) = padding e"
  "blockBlueOriginalPadding (setChildNodes ks e) = blockBlueOriginalPadding e"
  by (cases e; simp)+

lemma setOriginal_sel [simp]:
  "childNodes (setOriginal hs e) = childNodes e"
  "blockBlueOriginal (setOriginal hs e) = Some hs"
  "processed (setOriginal hs e) = processed e"
  "replaced (setOriginal hs e) = replaced e"
  "nodeId (setOriginal hs e) = nodeId e"
  "padding (setOriginal hs e) = padding e"
  "blockBlueOriginalPadding (setOriginal hs e) = blockBlueOriginalPadding e"
  by (cases e; simp)+

lemma setProcessed_sel [simp]:
  "childNodes (setProcessed v e) = childNodes e"
  "blockBlueOriginal (setProcessed v e) = blockBlueOriginal e"
  "processed (setProcessed v e) = v"
  "replaced (setProcessed v e) = replaced e"
  "nodeId (setProcessed v e) = nodeId e"
  "padding (setProcessed v e) = padding e"
  "blockBlueOriginalPadding (setProcessed v e) = blockBlueOriginalPadding e"
  "tagName (setProcessed v e) = tagName e"
  "attributes (setProcessed v e) = attributes e"
  by (cases e; simp)+

lemma all_marker_inv_iff:
  "list_all marker_inv (allNodes e) \<longleftrightarrow>
     marker_inv e \<and> (\<forall>k \<in> set (childNodes e). list_all marker_inv (allNodes k))
     \<and> (\<forall>hs. blockBlueOriginal e = Some hs \<longrightarrow> (\<forall>h \<in> set hs. list_all marker_inv (allNodes h)))"
  by (cases e) (auto simp: list_all_iff split: option.splits)

lemma modifyAt_marker_inv:
  assumes f: "\<And>e. list_all marker_inv (allNodes e) \<Longrightarrow> list_all marker_inv (allNodes (f e))"
  shows "list_all marker_inv (allNodes t) \<Longrightarrow> list_all marker_inv (allNodes (modifyAt path f t))"
proof (induction path arbitrary: t)
  case Nil
  then show ?case by (simp add: f)
next
  case (Cons s path)
  note t = Cons.prems [unfolded all_marker_inv_iff [of t]]
  show ?case
  proof (cases s)
    case (Child n)
    show ?thesis
    proof (cases "n < length (childNodes t)")
      case True
      let ?k = "modifyAt path f (childNodes t ! n)"
      have "list_all marker_inv (allNodes (childNodes t ! n))"
        using t True by simp
      then have k: "list_all marker_inv (allNodes ?k)"
        by (rule Cons.IH)
      have kids: "\<forall>k \<in> set ((childNodes t)[n := ?k]). list_all marker_inv (allNodes k)"
        using k t by (auto dest: set_update_subset_insert [THEN subsetD])
      have "marker_inv (setChildNodes ((childNodes t)[n := ?k]) t)"
        using t by (simp add: marker_inv_def)
      with kids t True show ?thesis
        by (simp add: Child all_marker_inv_iff [of "setChildNodes ks t" for ks])
    next
      case False
      with Cons.prems show ?thesis by (simp add: Child)
    qed
  next
    case (Held n)
    show ?thesis
    proof (cases "blockBlueOriginal t")
      case None
      with Cons.prems show ?thesis by (simp add: Held)
    next
      case (Some hs)
      show ?thesis
      proof (cases "n < length hs")
        case True
        let ?k = "modifyAt path f (hs ! n)"
        have "list_all marker_inv (allNodes (hs ! n))"
          using t True Some by simp
        then have k: "list_all marker_inv (allNodes ?k)"
          by (rule Cons.IH)
        have held: "\<forall>k \<in> set (hs[n := ?k]). list_all marker_inv (allNodes k)"
          using k t Some by (auto dest: set_update_subset_insert [THEN subsetD])
        have "marker_inv (setOriginal (hs[n := ?k]) t)"
          using t Some by (simp add: marker_inv_def)
        with held t True Some show ?thesis
          by (simp add: Held all_marker_inv_iff [of "setOriginal ks t" for ks])
      next
        case False
        with Cons.prems Some show ?thesis by (simp add: Held)
      qed
    qed
  qed
qed

lemma setProcessed_marker_inv:
  "list_all marker_inv (allNodes e) \<Longrightarrow> list_all marker_inv (allNodes (setProcessed True e))"
  by (cases e) (auto simp: marker_inv_def)

lemma placeholderBar_marker_inv: "list_all marker_inv (allNodes (placeholderBar st t))"
  by (simp add: placeholderBar_def pageElement_def marker_inv_def Let_def)

lemma hide_marker_inv:
  "list_all marker_inv (allNodes e) \<Longrightarrow>
   list_all marker_inv (allNodes (replaceWithPlaceholder st (setProcessed True e) badgeType))"
  using placeholderBar_marker_inv [of st badgeType]
  by (cases e) (auto simp: marker_inv_def list_all_iff)

lemma restoreElement_marker_inv:
  "list_all marker_inv (allNodes e) \<Longrightarrow> list_all marker_inv (allNodes (restoreElement e))"
  by (cases e) (auto simp: marker_inv_def list_all_iff split: option.splits)

lemma processElement_eq:
  "processElement st ref =
     (case lookup ref (body st) of
        None \<Rightarrow> st
      | Some (path, element) \<Rightarrow>
          if processed (node element) then st
          else (case getBlockBadgeType st (element\<lparr>node := setProcessed True (node element)\<rparr>) of
                  None \<Rightarrow> st\<lparr>body := modifyAt path (setProcessed True) (body st)\<rparr>
                | Some badgeType \<Rightarrow>
                    st\<lparr>body := modifyAt path
                                 (\<lambda>e. replaceWithPlaceholder st (setProcessed True e) badgeType)
                                 (body st),
                       hiddenCount := increment (hiddenCount st)\<rparr>))"
proof -
  have d: "getBlockBadgeType (st\<lparr>body := b\<rparr>) c = getBlockBadgeType st c" for b c
    by (rule getBlockBadgeType_reads) simp_all
  have r: "replaceWithPlaceholder (st\<lparr>body := b\<rparr>) e t = replaceWithPlaceholder st e t" for b e t
    by (rule replaceWithPlaceholder_reads) simp
  show ?thesis
    by (auto simp: processElement_def getBlockBadgeType_call_eq d r modifyAt_modifyAt Let_def
        split: option.splits)
qed

lemma processElement_invariant: "invariant st \<Longrightarrow> invariant (processElement st ref)"
  unfolding invariant_def processElement_eq
  by (auto split: option.splits
      intro!: modifyAt_marker_inv setProcessed_marker_inv hide_marker_inv)

lemma restoreAt_invariant: "invariant st \<Longrightarrow> invariant (restoreAt st ref)"
  unfolding invariant_def restoreAt_def
  by (auto split: option.splits intro!: modifyAt_marker_inv restoreElement_marker_inv)

lemma processElement_processed:
  "lookup ref (body st) = Some (path, element) \<Longrightarrow> processed (node element) \<Longrightarrow>
   processElement st ref = st"
  by (simp add: processElement_def)

lemma processTree_preserve:
  assumes "\<And>s ref. P s \<Longrightarrow> P (processElement s ref)" and "P st"
  shows "P (processTree st root)"
  by (cases root)
     (auto simp: processTree_def Let_def assms split: option.splits
       intro!: foldl_preserve [where P = P])

lemma processTree_invariant: "invariant st \<Longrightarrow> invariant (processTree st root)"
  by (rule processTree_preserve [where P = invariant]) (auto intro: processElement_invariant)


subsection \<open>What a rewrite leaves alone\<close>

lemma allNodes_iff:
  "x \<in> set (allNodes e) \<longleftrightarrow>
     x = e \<or> (\<exists>k \<in> set (childNodes e). x \<in> set (allNodes k))
     \<or> (\<exists>hs. blockBlueOriginal e = Some hs \<and> (\<exists>h \<in> set hs. x \<in> set (allNodes h)))"
  by (cases e) (auto split: option.splits)

lemma allNodes_self: "e \<in> set (allNodes e)"
  by (simp add: allNodes_iff [of e e])

lemma set_update_cases:
  assumes "k \<in> set ks" and "n < length ks"
  shows "k = ks ! n \<or> k \<in> set (ks[n := k'])"
proof -
  obtain m where m: "m < length ks" and k: "k = ks ! m"
    using assms(1) by (auto simp: in_set_conv_nth)
  show ?thesis
  proof (cases "m = n")
    case True
    with k show ?thesis by simp
  next
    case False
    then have "(ks[n := k']) ! m = k"
      using k by simp
    moreover have "m < length (ks[n := k'])"
      using m by simp
    ultimately have "k \<in> set (ks[n := k'])"
      by (metis nth_mem)
    then show ?thesis ..
  qed
qed

lemma map_nodeId_update:
  assumes "nodeId k' = nodeId (ks ! n)"
  shows "map nodeId (ks[n := k']) = map nodeId ks"
  by (metis assms list_update_id map_update)

lemma own_modifyAt:
  assumes ids: "\<And>e. nodeId (f e) = nodeId e"
  shows "elementAt path anc conn t = Some c \<Longrightarrow>
     (\<And>y. y \<in> set (allNodes (node c)) \<Longrightarrow> y \<noteq> node c \<Longrightarrow> y \<in> set (allNodes (f (node c)))) \<Longrightarrow>
     x \<in> set (allNodes t) \<Longrightarrow>
     x = node c \<or> own x \<in> own ` set (allNodes (modifyAt path f t))"
proof (induction path arbitrary: anc conn t)
  case Nil
  from Nil.prems(1) have "node c = t" by auto
  with Nil.prems(2,3) show ?case by auto
next
  case (Cons s path)
  show ?case
  proof (cases s)
    case (Child n)
    with Cons.prems(1) have n: "n < length (childNodes t)"
      and at: "elementAt path (startTag t # anc) conn (childNodes t ! n) = Some c"
      by (auto split: if_splits)
    let ?k = "modifyAt path f (childNodes t ! n)"
    let ?t = "setChildNodes ((childNodes t)[n := ?k]) t"
    have m: "modifyAt (s # path) f t = ?t"
      using n by (simp add: Child)
    have idk: "nodeId ?k = nodeId (childNodes t ! n)"
      using ids by (rule nodeId_modifyAt)
    have own_t: "own ?t = own t"
      by (simp add: own_def map_nodeId_update [OF idk])
    from Cons.prems(3) consider "x = t"
      | k where "k \<in> set (childNodes t)" and "x \<in> set (allNodes k)"
      | hs h where "blockBlueOriginal t = Some hs" and "h \<in> set hs" and "x \<in> set (allNodes h)"
      unfolding allNodes_iff [of x t] by blast
    then show ?thesis
    proof cases
      case 1
      have "own ?t \<in> own ` set (allNodes ?t)"
        by (intro imageI allNodes_self)
      with 1 own_t show ?thesis by (simp add: m)
    next
      case 2
      from set_update_cases [OF 2(1) n, of ?k]
      show ?thesis
      proof
        assume "k = childNodes t ! n"
        with 2 have "x \<in> set (allNodes (childNodes t ! n))" by simp
        from Cons.IH [OF at Cons.prems(2) this]
        show ?thesis
        proof
          assume "x = node c" then show ?thesis ..
        next
          assume "own x \<in> own ` set (allNodes ?k)"
          then obtain y where y: "y \<in> set (allNodes ?k)" and o: "own x = own y" by auto
          have "?k \<in> set ((childNodes t)[n := ?k])"
            using n by (simp add: set_update_memI)
          then have "y \<in> set (allNodes ?t)"
            using y unfolding allNodes_iff [of y ?t] by auto
          with o show ?thesis by (auto simp: m)
        qed
      next
        assume "k \<in> set ((childNodes t)[n := ?k])"
        then have "x \<in> set (allNodes ?t)"
          using 2(2) unfolding allNodes_iff [of x ?t] by auto
        then show ?thesis by (auto simp: m)
      qed
    next
      case 3
      then have "x \<in> set (allNodes ?t)"
        unfolding allNodes_iff [of x ?t] by auto
      then show ?thesis by (auto simp: m)
    qed
  next
    case (Held n)
    with Cons.prems(1) obtain hs where hs: "blockBlueOriginal t = Some hs" and n: "n < length hs"
      and at: "elementAt path [] False (hs ! n) = Some c"
      by (auto split: option.splits if_splits)
    let ?k = "modifyAt path f (hs ! n)"
    let ?t = "setOriginal (hs[n := ?k]) t"
    have m: "modifyAt (s # path) f t = ?t"
      using n hs by (simp add: Held)
    have idk: "nodeId ?k = nodeId (hs ! n)"
      using ids by (rule nodeId_modifyAt)
    have own_t: "own ?t = own t"
      by (simp add: own_def hs map_nodeId_update [OF idk])
    from Cons.prems(3) consider "x = t"
      | k where "k \<in> set (childNodes t)" and "x \<in> set (allNodes k)"
      | h where "h \<in> set hs" and "x \<in> set (allNodes h)"
      unfolding allNodes_iff [of x t] using hs by auto
    then show ?thesis
    proof cases
      case 1
      have "own ?t \<in> own ` set (allNodes ?t)"
        by (intro imageI allNodes_self)
      with 1 own_t show ?thesis by (simp add: m)
    next
      case 2
      then have "x \<in> set (allNodes ?t)"
        unfolding allNodes_iff [of x ?t] by auto
      then show ?thesis by (auto simp: m)
    next
      case 3
      from set_update_cases [OF 3(1) n, of ?k]
      show ?thesis
      proof
        assume "h = hs ! n"
        with 3 have "x \<in> set (allNodes (hs ! n))" by simp
        from Cons.IH [OF at Cons.prems(2) this]
        show ?thesis
        proof
          assume "x = node c" then show ?thesis ..
        next
          assume "own x \<in> own ` set (allNodes ?k)"
          then obtain y where y: "y \<in> set (allNodes ?k)" and o: "own x = own y" by auto
          have "?k \<in> set (hs[n := ?k])"
            using n by (simp add: set_update_memI)
          then have "y \<in> set (allNodes ?t)"
            using y unfolding allNodes_iff [of y ?t] by auto
          with o show ?thesis by (auto simp: m)
        qed
      next
        assume "h \<in> set (hs[n := ?k])"
        then have "x \<in> set (allNodes ?t)"
          using 3(2) unfolding allNodes_iff [of x ?t] by auto
        then show ?thesis by (auto simp: m)
      qed
    qed
  qed
qed


subsection \<open>Processed elements are kept\<close>

lemma lookup_elementAt:
  "lookup ref tree = Some (path, c) \<Longrightarrow> elementAt path [] True tree = Some c"
  by (auto simp: lookup_def split: option.splits)

lemma keepsProcessed_refl: "keepsProcessed st st"
  by (auto simp: keepsProcessed_def)

lemma own_processed: "own x = own y \<Longrightarrow> processed x = processed y"
  by (simp add: own_def)

lemma keepsProcessed_trans:
  assumes "keepsProcessed a b" and "keepsProcessed b c"
  shows "keepsProcessed a c"
  unfolding keepsProcessed_def
proof (intro ballI impI)
  fix x assume x: "x \<in> set (allNodes (body a))" and p: "processed x"
  then obtain y where y: "y \<in> set (allNodes (body b))" and o: "own x = own y"
    using assms(1) by (auto simp: keepsProcessed_def)
  have "processed y"
    using own_processed [OF o] p by simp
  with y have "own y \<in> own ` set (allNodes (body c))"
    using assms(2) by (auto simp: keepsProcessed_def)
  with o show "own x \<in> own ` set (allNodes (body c))" by simp
qed

lemma nodeId_replaceWithPlaceholder [simp]:
  "nodeId (replaceWithPlaceholder st e badgeType) = nodeId e"
  by (cases e) simp

lemma nodeId_restoreElement [simp]: "nodeId (restoreElement e) = nodeId e"
  by (cases e) (simp split: option.splits)

lemma modifyAt_keeps:
  assumes at: "elementAt path [] True (body st) = Some c"
    and unprocessed: "\<not> processed (node c)"
    and ids: "\<And>e. nodeId (f e) = nodeId e"
    and sub: "\<And>y. y \<in> set (allNodes (node c)) \<Longrightarrow> y \<noteq> node c \<Longrightarrow> y \<in> set (allNodes (f (node c)))"
    and b: "body st' = modifyAt path f (body st)"
  shows "keepsProcessed st st'"
  unfolding keepsProcessed_def
proof (intro ballI impI)
  fix x assume x: "x \<in> set (allNodes (body st))" and p: "processed x"
  from own_modifyAt [of f, OF ids at sub x]
  have "x = node c \<or> own x \<in> own ` set (allNodes (modifyAt path f (body st)))"
    by blast
  with p unprocessed show "own x \<in> own ` set (allNodes (body st'))"
    by (auto simp: b)
qed

lemma processElement_keeps:
  assumes "invariant st"
  shows "keepsProcessed st (processElement st ref)"
proof (cases "lookup ref (body st)")
  case None
  then show ?thesis by (simp add: processElement_eq keepsProcessed_refl)
next
  case (Some found)
  obtain path c where found: "found = (path, c)" by (cases found)
  have at: "elementAt path [] True (body st) = Some c"
    using Some found by (simp add: lookup_elementAt)
  show ?thesis
  proof (cases "processed (node c)")
    case True
    with Some found show ?thesis by (simp add: processElement_eq keepsProcessed_refl)
  next
    case False
    have "node c \<in> set (allNodes (body st))"
      using at by (rule elementAt_allNodes)
    then have "marker_inv (node c)"
      using assms by (simp add: invariant_def list_all_iff)
    with False have none: "blockBlueOriginal (node c) = None"
      by (auto simp: marker_inv_def)
    show ?thesis
    proof (cases "getBlockBadgeType st (c\<lparr>node := setProcessed True (node c)\<rparr>)")
      case None
      have "keepsProcessed st (st\<lparr>body := modifyAt path (setProcessed True) (body st)\<rparr>)"
      proof (rule modifyAt_keeps [OF at False])
        fix y assume "y \<in> set (allNodes (node c))" and "y \<noteq> node c"
        then show "y \<in> set (allNodes (setProcessed True (node c)))"
          unfolding allNodes_iff [of y "node c"] allNodes_iff [of y "setProcessed True (node c)"]
          by auto
      qed simp_all
      with Some found False None show ?thesis by (simp add: processElement_eq)
    next
      case (Some badgeType)
      let ?f = "\<lambda>e. replaceWithPlaceholder st (setProcessed True e) badgeType"
      have "keepsProcessed st
          (st\<lparr>body := modifyAt path ?f (body st), hiddenCount := increment (hiddenCount st)\<rparr>)"
      proof (rule modifyAt_keeps [OF at False])
        fix y assume "y \<in> set (allNodes (node c))" and "y \<noteq> node c"
        then have "\<exists>k \<in> set (childNodes (node c)). y \<in> set (allNodes k)"
          unfolding allNodes_iff [of y "node c"] using none by auto
        then show "y \<in> set (allNodes (?f (node c)))"
          by (cases "node c") auto
      qed simp_all
      with Some \<open>lookup ref (body st) = Some found\<close> found False show ?thesis
        by (simp add: processElement_eq)
    qed
  qed
qed

lemma processElement_kept:
  assumes "invariant st" and "invariant s \<and> keepsProcessed st s"
  shows "invariant (processElement s ref) \<and> keepsProcessed st (processElement s ref)"
proof
  show "invariant (processElement s ref)"
    using assms(2) by (simp add: processElement_invariant)
  have "keepsProcessed s (processElement s ref)"
    using assms(2) by (simp add: processElement_keeps)
  with assms(2) show "keepsProcessed st (processElement s ref)"
    using keepsProcessed_trans by blast
qed

section \<open>Mutation-driven scans\<close>

lemma walkAdded_preserve:
  assumes "\<And>s root. P s \<Longrightarrow> P (processTree s root)" and "P st"
  shows "P (walkAdded st mutations)"
  unfolding walkAdded_def
  by (rule foldl_preserve [where P = P], rule foldl_preserve [where P = P])
     (auto intro: assms)

lemma handleMutations_walk:
  "handleMutations st pg mutations =
     (if \<not> enabled (settings st) \<or> \<not> isContextValid st then st
      else debouncedSaveHiddenCount (walkAdded (scanPageForFollowedUsers st pg) mutations))"
  by (simp add: handleMutations_def walkAdded_def Let_def)

lemma scan_body [simp]: "body (scanPageForFollowedUsers st pg) = body st"
  using scanPageForFollowedUsers_step [of st pg] by (simp add: tracker_step_def)

lemma scan_settings [simp]: "settings (scanPageForFollowedUsers st pg) = settings st"
  using scanPageForFollowedUsers_step [of st pg] by (simp add: tracker_step_def)

lemma scan_runtimeId [simp]: "runtimeId (scanPageForFollowedUsers st pg) = runtimeId st"
  using scanPageForFollowedUsers_step [of st pg] by (simp add: tracker_step_def)

lemma scan_followed: "followedUsersSet st \<subseteq> followedUsersSet (scanPageForFollowedUsers st pg)"
  using scanPageForFollowedUsers_step [of st pg] by (simp add: tracker_step_def)

lemma scan_invariant: "invariant st \<Longrightarrow> invariant (scanPageForFollowedUsers st pg)"
  by (simp add: invariant_def)

lemma handleMutations_kept:
  assumes "invariant st"
  shows "invariant (handleMutations st pg mutations)
       \<and> keepsProcessed st (handleMutations st pg mutations)"
proof -
  let ?P = "\<lambda>s. invariant s \<and> keepsProcessed st s"
  have start: "?P (scanPageForFollowedUsers st pg)"
    using assms by (simp add: scan_invariant keepsProcessed_def)
  have "?P (walkAdded (scanPageForFollowedUsers st pg) mutations)"
  proof (rule walkAdded_preserve [where P = ?P])
    fix s :: state and root
    assume s: "?P s"
    show "?P (processTree s root)"
    proof (rule processTree_preserve [where P = ?P])
      fix s' :: state and ref
      assume "?P s'"
      then show "?P (processElement s' ref)"
        by (rule processElement_kept [OF assms])
    qed (rule s)
  qed (rule start)
  then show ?thesis
    using assms
    by (simp add: handleMutations_walk debouncedSaveHiddenCount_def invariant_def
        keepsProcessed_def)
qed

lemma processElement_frame:
  "settings (processElement st ref) = settings st
   \<and> whitelistSet (processElement st ref) = whitelistSet st
   \<and> followedUsersSet (processElement st ref) = followedUsersSet st
   \<and> followedSaveTimer (processElement st ref) = followedSaveTimer st
   \<and> saveTimer (processElement st ref) = saveTimer st
   \<and> observer (processElement st ref) = observer st
   \<and> onFollowingTab (processElement st ref) = onFollowingTab st
   \<and> runtimeId (processElement st ref) = runtimeId st
   \<and> getMessage (processElement st ref) = getMessage st"
  by (simp add: processElement_eq split: option.splits prod.splits)

lemma processTree_followed: "followedUsersSet (processTree st root) = followedUsersSet st"
  by (rule processTree_preserve [where P = "\<lambda>s. followedUsersSet s = followedUsersSet st"])
     (simp_all add: processElement_frame)

lemma handleMutations_followed:
  "followedUsersSet st \<subseteq> followedUsersSet (handleMutations st pg mutations)"
proof -
  let ?P = "\<lambda>s. followedUsersSet st \<subseteq> followedUsersSet s"
  have "?P (walkAdded (scanPageForFollowedUsers st pg) mutations)"
    by (rule walkAdded_preserve [where P = ?P]) (simp_all add: processTree_followed scan_followed)
  then show ?thesis
    by (simp add: handleMutations_walk debouncedSaveHiddenCount_def)
qed

section \<open>Full rescan\<close>

lemma restoreAt_followed: "followedUsersSet (restoreAt st ref) = followedUsersSet st"
  by (simp add: restoreAt_def split: option.splits prod.splits)

lemma removeProcessedAt_followed: "followedUsersSet (removeProcessedAt st ref) = followedUsersSet st"
  by (simp add: removeProcessedAt_def split: option.splits prod.splits)

lemma restoreReplaced_followed: "followedUsersSet (restoreReplaced st) = followedUsersSet st"
  unfolding restoreReplaced_def
  by (rule foldl_preserve [where P = "\<lambda>s. followedUsersSet s = followedUsersSet st"])
     (simp_all add: restoreAt_followed)

lemma clearProcessed_followed: "followedUsersSet (clearProcessed st) = followedUsersSet st"
  unfolding clearProcessed_def
  by (rule foldl_preserve [where P = "\<lambda>s. followedUsersSet s = followedUsersSet st"])
     (simp_all add: removeProcessedAt_followed)

lemma rescanAll_followed: "followedUsersSet st \<subseteq> followedUsersSet (rescanAll st pg)"
  using scan_followed [of "st\<lparr>onFollowingTab := None\<rparr>" pg]
  by (simp add: rescanAll_def Let_def debouncedSaveHiddenCount_def startObserver_def
      stopObserver_def processTree_followed clearProcessed_followed restoreReplaced_followed)

lemma foldl_add_followed:
  "followedUsersSet (foldl (\<lambda>s u. s\<lparr>followedUsersSet := insert u (followedUsersSet s)\<rparr>) st us)
     = followedUsersSet st \<union> set us"
  by (induction us arbitrary: st) auto

lemma loadSettings_followed:
  "followedUsersSet st \<subseteq> followedUsersSet (loadSettings st result stillValid followedUsers)"
  by (cases followedUsers) (simp_all add: loadSettings_def Let_def foldl_add_followed)

section \<open>The colour string\<close>

lemma decimal_digits: "d \<in> set (decimal n) \<Longrightarrow> isDigit d"
proof (induction n rule: decimal.induct)
  case (1 n)
  show ?case
  proof (cases "n < 10")
    case True
    with "1.prems" show ?thesis by (simp add: decimal.simps [of n] isDigit_def)
  next
    case False
    with "1.prems" "1.IH" show ?thesis
      by (auto simp: decimal.simps [of n] isDigit_def)
  qed
qed

lemma decimal_nonempty: "decimal n \<noteq> []"
  by (simp add: decimal.simps [of n])

lemma parseInt10_snoc: "parseInt10 (ds @ [d]) = 10 * parseInt10 ds + (d - 48)"
  by (simp add: parseInt10_def)

lemma parseInt10_decimal: "parseInt10 (decimal n) = n"
proof (induction n rule: decimal.induct)
  case (1 n)
  show ?case
  proof (cases "n < 10")
    case True
    then show ?thesis by (simp add: decimal.simps [of n] parseInt10_def)
  next
    case False
    with "1.IH" show ?thesis
      by (simp add: decimal.simps [of n] parseInt10_snoc)
  qed
qed

lemma digit_no_space: "isDigit d \<Longrightarrow> \<not> isSpace d"
  by (auto simp: isDigit_def isSpace_def)

lemma rgbNumber_decimal:
  assumes "\<not> isDigit c" and "\<not> isSpace c" and "list_all isSpace ws"
  shows "rgbNumber (ws @ decimal n @ c # rest) = Some (n, c # rest)"
proof -
  have nd: "\<forall>d \<in> set (decimal n). \<not> isSpace d"
    using decimal_digits digit_no_space by blast
  have skip: "dropWhile isSpace (ws @ decimal n @ c # rest) = decimal n @ c # rest"
    using assms(3) nd decimal_nonempty [of n]
    by (cases "decimal n") (auto simp: list_all_iff dropWhile_append)
  have take: "takeWhile isDigit (decimal n @ c # rest) = decimal n"
    using assms(1) decimal_digits by (simp add: takeWhile_tail)
  have drop: "dropWhile isDigit (decimal n @ c # rest) = c # rest"
    using assms(1) decimal_digits by (simp add: dropWhile_append3)
  show ?thesis
    using assms(2) decimal_nonempty [of n]
    by (simp add: rgbNumber_def skip take drop parseInt10_decimal Let_def)
qed

lemma rgbMatch_rgbString: "rgbMatch (rgbString r g b) = Some (r, g, b)"
proof -
  have n1: "rgbNumber (decimal r @ 44 # 32 # decimal g @ 44 # 32 # decimal b @ [41])
      = Some (r, 44 # 32 # decimal g @ 44 # 32 # decimal b @ [41])"
    using rgbNumber_decimal [of 44 "[]" r] by (simp add: isDigit_def isSpace_def)
  have n2: "rgbNumber (32 # decimal g @ 44 # 32 # decimal b @ [41])
      = Some (g, 44 # 32 # decimal b @ [41])"
    using rgbNumber_decimal [of 44 "[32]" g] by (simp add: isDigit_def isSpace_def)
  have n3: "rgbNumber (32 # decimal b @ [41]) = Some (b, [41])"
    using rgbNumber_decimal [of 41 "[32]" b "[]"] by (simp add: isDigit_def isSpace_def)
  have s: "rgbString r g b =
      114 # 103 # 98 # 40 # decimal r @ 44 # 32 # decimal g @ 44 # 32 # decimal b @ [41]"
    by (simp add: rgbString_def js_def)
  show ?thesis
    by (simp add: s rgbHere_def js_def n1 n2 n3)
qed

section \<open>Identities\<close>

lemma lowerUnit_idem: "lowerUnit (lowerUnit u) = lowerUnit u"
  by (simp add: lowerUnit_def)

lemma toLowerCase_idem: "toLowerCase (toLowerCase s) = toLowerCase s"
  by (simp add: toLowerCase_def lowerUnit_idem)

lemma firstUsername_lower: "firstUsername links = Some u \<Longrightarrow> toLowerCase u = u"
  by (induction links) (auto simp: toLowerCase_idem split: option.splits if_splits)

lemma lowerUnit_word: "isWordUnit u \<Longrightarrow> isWordUnit (lowerUnit u) \<and> \<not> (65 \<le> lowerUnit u \<and> lowerUnit u \<le> 90)"
  by (auto simp: isWordUnit_def lowerUnit_def isDigit_def)

lemma firstUsername_shape:
  "firstUsername links = Some u \<Longrightarrow>
     1 \<le> length u \<and> length u \<le> 15
     \<and> (\<forall>c \<in> set u. (97 \<le> c \<and> c \<le> 122) \<or> isDigit c \<or> c = 95)"
proof (induction links)
  case Nil
  then show ?case by simp
next
  case (Cons link links)
  show ?case
  proof (cases "firstUsername (link # links) = firstUsername links")
    case True
    with Cons show ?thesis by simp
  next
    case False
    then obtain href m where "bareProfile href = Some m" and u: "u = toLowerCase m"
      using Cons.prems by (auto split: option.splits if_splits)
    then have m: "1 \<le> length m \<and> length m \<le> 15 \<and> list_all isWordUnit m"
      by (auto simp: bareProfile_def split: list.splits if_splits)
    then have "\<forall>c \<in> set (toLowerCase m). (97 \<le> c \<and> c \<le> 122) \<or> isDigit c \<or> c = 95"
      using lowerUnit_word by (auto simp: toLowerCase_def list_all_iff isWordUnit_def)
    with m u show ?thesis by (simp add: toLowerCase_def)
  qed
qed

lemma getBlockBadgeType_exempt_listed:
  assumes "extractUsername (content element) = Some I"
    and "I \<in> set (whitelist (settings st))"
    and "whitelistSet st = set (map toLowerCase (whitelist (settings st)))"
  shows "getBlockBadgeType st element = None"
proof -
  have "toLowerCase I = I"
    using assms(1) by (simp add: extractUsername_def firstUsername_lower)
  then have "I \<in> whitelistSet st"
    using assms(2,3) by force
  with assms(1) extractUsername_nonempty [OF assms(1)] show ?thesis
    by (auto simp: getBlockBadgeType_def Let_def split: option.splits)
qed

section \<open>The nested example\<close>

lemma pathTo_badge: "ref \<noteq> 0 \<Longrightarrow> pathTo ref (badge col) = None"
  by (simp add: badge_def pageElement_def)

lemma pathTo_profileLink: "ref \<noteq> 0 \<Longrightarrow> pathTo ref (profileLink h) = None"
  by (simp add: profileLink_def pageElement_def)

lemma pathTo_placeholderBar: "ref \<noteq> 0 \<Longrightarrow> pathTo ref (placeholderBar st t) = None"
  by (simp add: placeholderBar_def pageElement_def Let_def)

lemma svgs_badge:
  "filter (\<lambda>ea. hasType (js ''svg'') (tagName (fst ea))) (withAncestors anc (badge col)) = [(badge col, anc)]"
  by (simp add: badge_def pageElement_def hasType_def string_defs)

lemma svgs_profileLink:
  "filter (\<lambda>ea. hasType (js ''svg'') (tagName (fst ea))) (withAncestors anc (profileLink h)) = []"
  by (simp add: profileLink_def pageElement_def hasType_def string_defs)

lemma svgs_placeholderBar:
  "filter (\<lambda>ea. hasType (js ''svg'') (tagName (fst ea))) (withAncestors anc (placeholderBar st t)) = []"
  by (simp add: placeholderBar_def pageElement_def hasType_def string_defs Let_def)

lemma links_badge: "filter matchesRoleLink (map fst (withAncestors anc (badge col))) = []"
  by (simp add: badge_def pageElement_def matchesRoleLink_def hasType_def string_defs)

lemma links_profileLink:
  "filter matchesRoleLink (map fst (withAncestors anc (profileLink h))) = [profileLink h]"
  by (simp add: profileLink_def pageElement_def matchesRoleLink_def hasType_def getAttribute_def
      string_defs)

lemma links_placeholderBar:
  "filter matchesRoleLink (map fst (withAncestors anc (placeholderBar st t))) = []"
  by (simp add: placeholderBar_def pageElement_def matchesRoleLink_def hasType_def string_defs Let_def)

lemma firstUsername_profileLink:
  "firstUsername (profileLink (js ''Bob'') # links) = Some (js ''bob'')"
  "firstUsername (profileLink (js ''Alice'') # links) = Some (js ''alice'')"
  by (simp_all add: profileLink_def pageElement_def getAttribute_def bareProfile_def string_defs)

lemma firstBadgeType_blue:
  assumes "\<not> list_ex matchesStatusLink anc"
  shows "firstBadgeType ((badge (js ''rgb(29, 155, 240)''), anc) # svgs) = Some BLUE"
proof -
  have "\<not> matchesStatusLink (startTag (badge (js ''rgb(29, 155, 240)'')))"
    by (simp add: matchesStatusLink_def startTag_def badge_def pageElement_def hasType_def string_defs)
  with assms have "closestStatusLink (badge (js ''rgb(29, 155, 240)''), anc) = None"
    by (simp add: closestStatusLink_def find_None_iff list_ex_iff)
  then show ?thesis
    by (simp add: isVerifiedBadge_badge getBadgeColorType_blue)
qed


lemma scan_emptyPage:
  "onFollowingTab st \<noteq> Some True \<Longrightarrow>
   scanPageForFollowedUsers st emptyPage = st\<lparr>onFollowingTab := Some False\<rparr>"
  by (cases "onFollowingTab st")
     (simp_all add: scanPageForFollowedUsers_def followingTabSignal_def isOnFollowingTab_def
       unfollowButtonsSignal_def followingButtonsSignal_def profileHeaderSignal_def emptyPage_def
       bareProfile_def string_defs)

lemma pathTo_bobCell: "pathTo 3 bobCell = Some []"
  by (simp add: bobCell_def userCell_def pageElement_def)

lemma pathTo_bobCell_other: "ref \<noteq> 0 \<Longrightarrow> ref \<noteq> 3 \<Longrightarrow> pathTo ref bobCell = None"
  by (simp add: bobCell_def userCell_def pageElement_def pathTo_badge pathTo_profileLink)

lemma tags [simp]:
  "startTag (article i ks) = (js ''ARTICLE'', [(js ''data-testid'', js ''tweet'')])"
  "startTag (userCell i ks) = (js ''DIV'', [(js ''data-testid'', js ''UserCell'')])"
  "startTag (pageElement i t a x c ks) = (t, a)"
  "startTag (setProcessed v e) = startTag e"
  "startTag (replaceWithPlaceholder st e b) = startTag e"
  by (simp_all add: startTag_def article_def userCell_def pageElement_def, (cases e; simp)+)

lemma no_status_link:
  "\<not> matchesStatusLink (js ''ARTICLE'', [(js ''data-testid'', js ''tweet'')])"
  "\<not> matchesStatusLink (js ''DIV'', [(js ''data-testid'', js ''UserCell'')])"
  "\<not> matchesStatusLink (js ''BODY'', [])"
  by (simp_all add: matchesStatusLink_def hasType_def string_defs)

lemma matchesSelectors_examples:
  "matchesSelectors (article i ks)" "matchesSelectors (userCell i ks)"
  "\<not> matchesSelectors (badge col)" "\<not> matchesSelectors (profileLink h)"
  "\<not> matchesSelectors (pageElement i (js ''BODY'') [] x c ks)"
  "matchesSelectors (setProcessed v e) = matchesSelectors e"
  "matchesSelectors (replaceWithPlaceholder st e b) = matchesSelectors e"
  by (simp_all add: matchesSelectors_def getAttribute_def article_def userCell_def pageElement_def
        badge_def profileLink_def string_defs, (cases e; simp)+)

lemma decision_bobCell:
  assumes "enabled (settings st)" and "hideBlue (settings st)"
    and "whitelistSet st = {}" and "followedUsersSet st = {}"
  shows "getBlockBadgeType st
      \<lparr>node = setProcessed True bobCell,
       above = [(js ''ARTICLE'', [(js ''data-testid'', js ''tweet'')]), (js ''BODY'', [])],
       connected = True\<rparr> = Some BLUE"
proof -
  let ?c = "\<lparr>node = setProcessed True bobCell,
       above = [(js ''ARTICLE'', [(js ''data-testid'', js ''tweet'')]), (js ''BODY'', [])],
       connected = True\<rparr>"
  have kids: "content ?c = [badge (js ''rgb(29, 155, 240)''), profileLink (js ''Bob'')]"
    by (simp add: content_def bobCell_def userCell_def pageElement_def)
  have self: "self ?c = (js ''DIV'', [(js ''data-testid'', js ''UserCell'')])"
    by (simp add: self_def bobCell_def)
  have svgs: "querySelectorAll_svg ?c =
      [(badge (js ''rgb(29, 155, 240)''),
        [(js ''DIV'', [(js ''data-testid'', js ''UserCell'')]),
         (js ''ARTICLE'', [(js ''data-testid'', js ''tweet'')]), (js ''BODY'', [])])]"
    by (simp add: querySelectorAll_svg_def inside_def kids self svgs_badge svgs_profileLink)
  have first: "firstBadgeType (querySelectorAll_svg ?c) = Some BLUE"
    unfolding svgs by (rule firstBadgeType_blue) (simp add: no_status_link)
  have user: "extractUsername (content ?c) = Some (js ''bob'')"
    by (simp add: kids extractUsername_def querySelectorAll_roleLink_def links_badge
        links_profileLink firstUsername_profileLink del: firstUsername.simps)
  show ?thesis
    using assms by (simp add: getBlockBadgeType_def first user)
qed


lemma lookup_cell_fresh:
  "lookup 3 (body (startState [nestedTweet])) =
     Some ([Child 0, Child 2],
       \<lparr>node = bobCell,
        above = [(js ''ARTICLE'', [(js ''data-testid'', js ''tweet'')]), (js ''BODY'', [])],
        connected = True\<rparr>)"
  by (simp add: lookup_def startState_def nestedTweet_def article_def pageElement_def
      pathTo_badge pathTo_profileLink pathTo_bobCell startTag_def)

lemma hide_cell:
  "modifyAt [Child 0, Child 2] (\<lambda>e. replaceWithPlaceholder st (setProcessed True e) BLUE)
     (body (startState [nestedTweet]))
   = body (startState [article 2 [badge (js ''rgb(29, 155, 240)''), profileLink (js ''Alice''),
        replaceWithPlaceholder st (setProcessed True bobCell) BLUE]])"
  by (simp add: startState_def nestedTweet_def article_def pageElement_def)

lemma processElement_cell:
  assumes "body st = body (startState [nestedTweet])"
    and "enabled (settings st)" and "hideBlue (settings st)"
    and "whitelistSet st = {}" and "followedUsersSet st = {}"
    and "getMessage st = getMessage (startState [])"
  shows "processElement st 3 =
     st\<lparr>body := body (startState [article 2 [badge (js ''rgb(29, 155, 240)''),
            profileLink (js ''Alice''), hiddenCell]]),
        hiddenCount := increment (hiddenCount st)\<rparr>"
proof -
  have fresh: "\<not> processed bobCell"
    by (simp add: bobCell_def userCell_def pageElement_def)
  have same: "replaceWithPlaceholder st e b = replaceWithPlaceholder (startState []) e b" for e b
    using assms(6) by (rule replaceWithPlaceholder_reads)
  show ?thesis
    using assms(2-5) fresh
    by (simp add: processElement_eq assms(1) lookup_cell_fresh decision_bobCell hide_cell
        hiddenCell_def same del: modifyAt.simps)
qed


lemma selectors_leaves:
  "filter matchesSelectors (map fst (withAncestors anc (placeholderBar st t))) = []"
  "filter matchesSelectors (map fst (withAncestors anc (badge col))) = []"
  "filter matchesSelectors (map fst (withAncestors anc (profileLink h))) = []"
  by (simp_all add: placeholderBar_def badge_def profileLink_def pageElement_def
      matchesSelectors_def getAttribute_def string_defs Let_def)

lemma hidden_children:
  "childNodes (replaceWithPlaceholder st e b) = [placeholderBar st b]"
  by (cases e) simp

lemma selectors_hidden: "querySelectorAll_SELECTORS (replaceWithPlaceholder st e b) = []"
  by (simp add: querySelectorAll_SELECTORS_def descendants_def hidden_children selectors_leaves)

lemma svgs_hiddenCell:
  "filter (\<lambda>ea. hasType (js ''svg'') (tagName (fst ea))) (withAncestors anc hiddenCell) = []"
  by (simp add: hiddenCell_def bobCell_def userCell_def pageElement_def svgs_placeholderBar)
     (simp add: hasType_def string_defs)

lemma links_hiddenCell: "filter matchesRoleLink (map fst (withAncestors anc hiddenCell)) = []"
  by (simp add: hiddenCell_def bobCell_def userCell_def pageElement_def links_placeholderBar)
     (simp add: matchesRoleLink_def hasType_def string_defs)

lemma pathTo_hiddenCell: "pathTo 3 hiddenCell = Some []"
  by (simp add: hiddenCell_def bobCell_def userCell_def pageElement_def)

lemma pathTo_hiddenCell_other: "ref \<noteq> 0 \<Longrightarrow> ref \<noteq> 3 \<Longrightarrow> pathTo ref hiddenCell = None"
  by (simp add: hiddenCell_def bobCell_def userCell_def pageElement_def pathTo_badge
      pathTo_profileLink pathTo_placeholderBar)

lemma lookup_cell_hidden:
  "lookup 3 (body (startState [article 2 [badge (js ''rgb(29, 155, 240)''),
        profileLink (js ''Alice''), hiddenCell]])) =
     Some ([Child 0, Child 2],
       \<lparr>node = hiddenCell,
        above = [(js ''ARTICLE'', [(js ''data-testid'', js ''tweet'')]), (js ''BODY'', [])],
        connected = True\<rparr>)"
  by (simp add: lookup_def startState_def article_def pageElement_def
      pathTo_badge pathTo_profileLink pathTo_hiddenCell startTag_def)

lemma lookup_tweet:
  "lookup 2 (body (startState [article 2 ks])) =
     Some ([Child 0], \<lparr>node = article 2 ks, above = [(js ''BODY'', [])], connected = True\<rparr>)"
  by (simp add: lookup_def startState_def article_def pageElement_def startTag_def)

lemma decision_tweet:
  assumes "enabled (settings st)" and "hideBlue (settings st)"
    and "whitelistSet st = {}" and "followedUsersSet st = {}"
  shows "getBlockBadgeType st
      \<lparr>node = setProcessed True (article 2 [badge (js ''rgb(29, 155, 240)''),
                 profileLink (js ''Alice''), hiddenCell]),
       above = [(js ''BODY'', [])], connected = True\<rparr> = Some BLUE"
proof -
  let ?c = "\<lparr>node = setProcessed True (article 2 [badge (js ''rgb(29, 155, 240)''),
                 profileLink (js ''Alice''), hiddenCell]),
       above = [(js ''BODY'', [])], connected = True\<rparr>"
  have kids: "content ?c = [badge (js ''rgb(29, 155, 240)''), profileLink (js ''Alice''), hiddenCell]"
    by (simp add: content_def article_def pageElement_def)
  have self: "self ?c = (js ''ARTICLE'', [(js ''data-testid'', js ''tweet'')])"
    by (simp add: self_def)
  have svgs: "querySelectorAll_svg ?c =
      [(badge (js ''rgb(29, 155, 240)''),
        [(js ''ARTICLE'', [(js ''data-testid'', js ''tweet'')]), (js ''BODY'', [])])]"
    by (simp add: querySelectorAll_svg_def inside_def kids self svgs_badge svgs_profileLink
        svgs_hiddenCell)
  have first: "firstBadgeType (querySelectorAll_svg ?c) = Some BLUE"
    unfolding svgs by (rule firstBadgeType_blue) (simp add: no_status_link)
  have user: "extractUsername (content ?c) = Some (js ''alice'')"
    by (simp add: kids extractUsername_def querySelectorAll_roleLink_def links_badge
        links_profileLink links_hiddenCell firstUsername_profileLink del: firstUsername.simps)
  show ?thesis
    using assms by (simp add: getBlockBadgeType_def first user)
qed

lemma hide_tweet:
  "modifyAt [Child 0] (\<lambda>e. replaceWithPlaceholder st (setProcessed True e) BLUE)
     (body (startState [article 2 ks]))
   = body (startState [replaceWithPlaceholder st (setProcessed True (article 2 ks)) BLUE])"
  by (simp add: startState_def article_def pageElement_def)

lemma processElement_tweet:
  assumes "body st = body (startState [article 2 [badge (js ''rgb(29, 155, 240)''),
            profileLink (js ''Alice''), hiddenCell]])"
    and "enabled (settings st)" and "hideBlue (settings st)"
    and "whitelistSet st = {}" and "followedUsersSet st = {}"
    and "getMessage st = getMessage (startState [])"
  shows "processElement st 2 =
     st\<lparr>body := body (startState [hiddenTweet]), hiddenCount := increment (hiddenCount st)\<rparr>"
proof -
  have fresh: "\<not> processed (article 2 ks)" for ks
    by (simp add: article_def pageElement_def)
  have same: "replaceWithPlaceholder st e b = replaceWithPlaceholder (startState []) e b" for e b
    using assms(6) by (rule replaceWithPlaceholder_reads)
  show ?thesis
    using assms(2-5) fresh
    by (simp add: processElement_eq assms(1) lookup_tweet decision_tweet hide_tweet
        hiddenTweet_def same del: modifyAt.simps)
qed

lemma lookup_hiddenTweet:
  "lookup 2 (body (startState [hiddenTweet])) =
     Some ([Child 0], \<lparr>node = hiddenTweet, above = [(js ''BODY'', [])], connected = True\<rparr>)"
  by (simp add: lookup_def startState_def hiddenTweet_def article_def pageElement_def startTag_def)

lemma examples_selectors:
  "matchesSelectors bobCell" "querySelectorAll_SELECTORS hiddenCell = []"
  "querySelectorAll_SELECTORS hiddenTweet = []"
  by (simp_all add: bobCell_def hiddenCell_def hiddenTweet_def matchesSelectors_examples
      selectors_hidden)

lemma handleMutations_nestedTweet:
  "handleMutations (startState [nestedTweet]) emptyPage [[HTMLElement 3], [HTMLElement 2]]
     = nestedHidden"
proof -
  let ?s1 = "(startState [nestedTweet])\<lparr>onFollowingTab := Some False\<rparr>"
  let ?s2 = "?s1\<lparr>body := body (startState [article 2 [badge (js ''rgb(29, 155, 240)''),
            profileLink (js ''Alice''), hiddenCell]]), hiddenCount := 1\<rparr>"
  let ?s3 = "?s2\<lparr>body := body (startState [hiddenTweet]), hiddenCount := 2\<rparr>"
  have scan: "scanPageForFollowedUsers (startState [nestedTweet]) emptyPage = ?s1"
    by (rule scan_emptyPage) (simp add: startState_def)
  have e1: "processElement ?s1 3 = ?s2"
    by (subst processElement_cell) (simp_all add: startState_def increment_def)
  have t1: "processTree ?s1 (HTMLElement 3) = ?s2"
    by (simp add: processTree_def lookup_cell_fresh e1 lookup_cell_hidden examples_selectors)
  have e2: "processElement ?s2 2 = ?s3"
    by (subst processElement_tweet) (simp_all add: startState_def increment_def)
  have t2: "processTree ?s2 (HTMLElement 2) = ?s3"
    by (simp add: processTree_def lookup_tweet e2 lookup_hiddenTweet examples_selectors
        matchesSelectors_examples)
  have "handleMutations (startState [nestedTweet]) emptyPage [[HTMLElement 3], [HTMLElement 2]]
      = debouncedSaveHiddenCount ?s3"
    by (simp add: handleMutations_def scan isElementNode_def t1 t2 Let_def)
       (simp add: startState_def isContextValid_def)
  then show ?thesis
    by (simp add: nestedHidden_def debouncedSaveHiddenCount_def startState_def)
qed


lemma marks_leaves:
  "filter replaced (preorder (badge col)) = []" "filter processed (preorder (badge col)) = []"
  "filter replaced (preorder (profileLink h)) = []" "filter processed (preorder (profileLink h)) = []"
  "filter replaced (preorder (placeholderBar st t)) = []"
  "filter processed (preorder (placeholderBar st t)) = []"
  by (simp_all add: badge_def profileLink_def placeholderBar_def pageElement_def Let_def)

lemma replaced_hiddenTweet:
  "map nodeId (filter replaced (preorder (body (startState [hiddenTweet])))) = [2]"
  by (simp add: startState_def hiddenTweet_def article_def pageElement_def marks_leaves)

lemma restore_hiddenTweet:
  "modifyAt [Child 0] restoreElement (body (startState [hiddenTweet])) =
     body (startState [setProcessed True (article 2 [badge (js ''rgb(29, 155, 240)''),
        profileLink (js ''Alice''), hiddenCell])])"
  by (simp add: startState_def hiddenTweet_def article_def pageElement_def)

lemma processed_restored:
  "map nodeId (filter processed (preorder (body (startState
      [setProcessed True (article 2 [badge (js ''rgb(29, 155, 240)''),
         profileLink (js ''Alice''), hiddenCell])])))) = [2, 3]"
  by (simp add: startState_def article_def pageElement_def marks_leaves hiddenCell_def bobCell_def
      userCell_def)

lemma lookup_restored:
  "lookup 2 (body (startState [setProcessed True (article 2 ks)])) =
     Some ([Child 0],
       \<lparr>node = setProcessed True (article 2 ks), above = [(js ''BODY'', [])], connected = True\<rparr>)"
  by (simp add: lookup_def startState_def article_def pageElement_def startTag_def)

lemma unmark_tweet:
  "modifyAt [Child 0] (setProcessed False) (body (startState [setProcessed True (article 2 ks)]))
     = body (startState [article 2 ks])"
  by (simp add: startState_def article_def pageElement_def)

lemma unmark_cell:
  "modifyAt [Child 0, Child 2] (setProcessed False)
     (body (startState [article 2 [badge (js ''rgb(29, 155, 240)''),
        profileLink (js ''Alice''), hiddenCell]]))
   = body (startState [article 2 [badge (js ''rgb(29, 155, 240)''), profileLink (js ''Alice''),
        replaceWithPlaceholder (startState []) bobCell BLUE]])"
  by (simp add: startState_def article_def pageElement_def hiddenCell_def bobCell_def userCell_def)

lemma rescanAll_nestedHidden:
  "rescanAll (nestedHidden\<lparr>settings := (settings nestedHidden)\<lparr>enabled := False\<rparr>\<rparr>) emptyPage =
     nestedHidden
       \<lparr>settings := (settings nestedHidden)\<lparr>enabled := False\<rparr>,
        hiddenCount := 0,
        body := body (startState [article 2 [badge (js ''rgb(29, 155, 240)''),
                  profileLink (js ''Alice''),
                  replaceWithPlaceholder (startState []) bobCell BLUE]])\<rparr>"
proof -
  let ?st = "nestedHidden\<lparr>settings := (settings nestedHidden)\<lparr>enabled := False\<rparr>\<rparr>"
  let ?s1 = "?st\<lparr>onFollowingTab := Some False\<rparr>"
  let ?s2 = "?s1\<lparr>body := body (startState [setProcessed True
                (article 2 [badge (js ''rgb(29, 155, 240)''), profileLink (js ''Alice''),
                   hiddenCell])])\<rparr>"
  let ?s3 = "?s1\<lparr>body := body (startState [article 2 [badge (js ''rgb(29, 155, 240)''),
                  profileLink (js ''Alice''),
                  replaceWithPlaceholder (startState []) bobCell BLUE]])\<rparr>"
  have b: "body ?s1 = body (startState [hiddenTweet])"
    by (simp add: nestedHidden_def startState_def)
  have scan: "scanPageForFollowedUsers (?st\<lparr>onFollowingTab := None\<rparr>) emptyPage = ?s1"
    by (subst scan_emptyPage) simp_all
  have restore: "restoreReplaced ?s1 = ?s2"
    by (simp add: restoreReplaced_def b replaced_hiddenTweet restoreAt_def lookup_hiddenTweet
        restore_hiddenTweet del: modifyAt.simps)
  have clear: "clearProcessed ?s2 = ?s3"
    by (simp add: clearProcessed_def processed_restored removeProcessedAt_def lookup_restored
        unmark_tweet lookup_cell_hidden unmark_cell del: modifyAt.simps)
  show ?thesis
    by (simp add: rescanAll_def scan restore clear Let_def)
       (simp add: nestedHidden_def startState_def stopObserver_def debouncedSaveHiddenCount_def)
qed

section \<open>Claims\<close>

lemma svgs_plainTweet:
  "querySelectorAll_svg plainTweet =
     [(badge (js ''rgb(0, 0, 0)''),
       [(js ''ARTICLE'', [(js ''data-testid'', js ''tweet'')]), (js ''BODY'', [])]),
      (badge (js ''rgb(0, 0, 0)''),
       [(js ''ARTICLE'', [(js ''data-testid'', js ''tweet'')]), (js ''BODY'', [])])]"
  unfolding plainTweet_def by (rule svgs_of_tweet)

lemma svgs_blueTweet:
  "querySelectorAll_svg blueTweet =
     [(badge (js ''rgb(0, 0, 0)''),
       [(js ''ARTICLE'', [(js ''data-testid'', js ''tweet'')]), (js ''BODY'', [])]),
      (badge (js ''rgb(29, 155, 240)''),
       [(js ''ARTICLE'', [(js ''data-testid'', js ''tweet'')]), (js ''BODY'', [])])]"
  unfolding blueTweet_def by (rule svgs_of_tweet)

lemma getBlockBadgeType_blueTweet: "getBlockBadgeType (startState cs) blueTweet = Some BLUE"
  unfolding blueTweet_def by (rule getBlockBadgeType_two)

lemma extractUsername_blueTweet: "extractUsername (content blueTweet) = Some (js ''alice'')"
  unfolding blueTweet_def by (rule extractUsername_tweet)

lemma invariant_startState_blueTweet: "invariant (startState [node blueTweet])"
  by (simp add: invariant_def marker_inv_def startState_def blueTweet_def tweet_def article_def
      badge_def profileLink_def pageElement_def)

lemma lookup_blueTweet: "lookup 2 (body (startState [node blueTweet])) = Some ([Child 0], blueTweet)"
  by (simp add: blueTweet_def tweet_def lookup_tweet)

lemma invariant_nestedHidden: "invariant nestedHidden"
  by (simp add: invariant_def marker_inv_def nestedHidden_def hiddenTweet_def hiddenCell_def
      bobCell_def startState_def article_def userCell_def badge_def profileLink_def
      placeholderBar_def pageElement_def Let_def)

lemma leftover_placeholder:
  "replaced (replaceWithPlaceholder (startState []) bobCell BLUE)
   \<and> \<not> processed (replaceWithPlaceholder (startState []) bobCell BLUE)
   \<and> childNodes (replaceWithPlaceholder (startState []) bobCell BLUE)
       = [placeholderBar (startState []) BLUE]
   \<and> blockBlueOriginal (replaceWithPlaceholder (startState []) bobCell BLUE)
       = Some [badge (js ''rgb(29, 155, 240)''), profileLink (js ''Bob'')]"
  by (simp add: bobCell_def userCell_def pageElement_def)

lemma rescanAll_nestedHidden_invariant:
  "\<not> invariant (rescanAll (nestedHidden\<lparr>settings := (settings nestedHidden)\<lparr>enabled := False\<rparr>\<rparr>)
        emptyPage)"
  by (simp add: rescanAll_nestedHidden invariant_def startState_def article_def pageElement_def
      bobCell_def userCell_def marker_inv_def)

lemma increment_exact: "- (2 ^ 53) \<le> n \<Longrightarrow> n < 2 ^ 53 \<Longrightarrow> increment n = n + 1"
  by (simp add: increment_def)

text \<open>
  C1 (as amended). \<open>getBlockBadgeType\<close> enumerates the container's \<^verbatim>\<open>svg\<close>
  elements in document order, skips each that is not a badge, is inside a permalink-shaped
  link, or has a colour no tier takes, and stops at the first badge whose tier is
  recognised: that badge's tier decides. If no tier is found it returns none.
\<close>

theorem getBlockBadgeType_first_recognised:
  "getBlockBadgeType st element =
     (if \<not> enabled (settings st) then None
      else case find (\<lambda>svg. qualifies svg \<and> getBadgeColorType (fst svg) \<noteq> None)
                  (querySelectorAll_svg element) of
        None \<Rightarrow> None
      | Some svg \<Rightarrow>
          (case getBadgeColorType (fst svg) of
             None \<Rightarrow> None
           | Some badgeType \<Rightarrow>
               if (badgeType = BLUE \<and> \<not> hideBlue (settings st))
                  \<or> (badgeType = GOLD \<and> \<not> hideGold (settings st))
                  \<or> (badgeType = GRAY \<and> \<not> hideGray (settings st))
               then None
               else if (case extractUsername (content element) of
                          None \<Rightarrow> False
                        | Some u \<Rightarrow> u \<in> whitelistSet st \<or> u \<in> followedUsersSet st)
               then None
               else Some badgeType))
   \<and> map fst (querySelectorAll_svg element) =
       filter (\<lambda>e. toLowerCase (tagName e) = js ''svg'') (concat (map preorder (content element)))"
proof -
  have "map fst (inside element) = concat (map preorder (content element))"
    by (simp add: inside_def map_concat preorder_withAncestors comp_def)
  moreover have "map fst (filter (\<lambda>ea. toLowerCase (tagName (fst ea)) = js ''svg'') (inside element))
      = filter (\<lambda>e. toLowerCase (tagName e) = js ''svg'') (map fst (inside element))"
    by (simp add: filter_map comp_def)
  ultimately have order: "map fst (querySelectorAll_svg element) =
       filter (\<lambda>e. toLowerCase (tagName e) = js ''svg'') (concat (map preorder (content element)))"
    by (simp add: querySelectorAll_svg_def hasType_def)
  have named: "u \<noteq> []" if "extractUsername (content element) = Some u" for u
    using that by (rule extractUsername_nonempty)
  have "getBlockBadgeType st element =
     (if \<not> enabled (settings st) then None
      else case find (\<lambda>svg. qualifies svg \<and> getBadgeColorType (fst svg) \<noteq> None)
                  (querySelectorAll_svg element) of
        None \<Rightarrow> None
      | Some svg \<Rightarrow>
          (case getBadgeColorType (fst svg) of
             None \<Rightarrow> None
           | Some badgeType \<Rightarrow>
               if (badgeType = BLUE \<and> \<not> hideBlue (settings st))
                  \<or> (badgeType = GOLD \<and> \<not> hideGold (settings st))
                  \<or> (badgeType = GRAY \<and> \<not> hideGray (settings st))
               then None
               else if (case extractUsername (content element) of
                          None \<Rightarrow> False
                        | Some u \<Rightarrow> u \<in> whitelistSet st \<or> u \<in> followedUsersSet st)
               then None
               else Some badgeType))"
    using named
    by (auto simp: getBlockBadgeType_def firstBadgeType_find Let_def split: option.splits)
  with order show ?thesis by (rule conjI [rotated])
qed

theorem getBlockBadgeType_first_recognised_witness:
  "getBlockBadgeType (startState []) plainTweet = None
   \<and> getBlockBadgeType (startState []) blueTweet = Some BLUE"
proof -
  have none: "find (\<lambda>svg. qualifies svg \<and> getBadgeColorType (fst svg) \<noteq> None)
      (querySelectorAll_svg plainTweet) = None"
    by (simp add: svgs_plainTweet getBadgeColorType_black)
  have "getBlockBadgeType (startState []) plainTweet = None"
    using getBlockBadgeType_first_recognised [of "startState []" plainTweet, THEN conjunct1,
        unfolded none]
    by simp
  then show ?thesis
    by (simp add: getBlockBadgeType_blueTweet)
qed

text \<open>
  The claim as first worded stops at the first qualifying badge. In \<open>blueTweet\<close> the
  first qualifying badge has no tier, and the decision is blue all the same.
\<close>

theorem getBlockBadgeType_first_qualifying_counterexample:
  "map fst (filter qualifies (querySelectorAll_svg blueTweet)) =
     [badge (js ''rgb(0, 0, 0)''), badge (js ''rgb(29, 155, 240)'')]
   \<and> getBadgeColorType (badge (js ''rgb(0, 0, 0)'')) = None
   \<and> first_qualifying_tier blueTweet = None
   \<and> getBlockBadgeType (startState []) blueTweet = Some BLUE"
  by (simp add: svgs_blueTweet qualifies_badge first_qualifying_tier_def getBadgeColorType_black
      getBlockBadgeType_blueTweet)

text \<open>
  C2. For a container with an extractable identity \<open>I\<close>: if \<open>I\<close> is in the
  allow-list or in the follow cache, \<open>getBlockBadgeType\<close> returns none, whatever the
  badge tier and the toggles.
\<close>

theorem getBlockBadgeType_exempt:
  assumes "extractUsername (content element) = Some I"
    and "I \<in> whitelistSet st \<or> I \<in> followedUsersSet st"
  shows "getBlockBadgeType st element = None"
  using assms extractUsername_nonempty [OF assms(1)]
  by (auto simp: getBlockBadgeType_def Let_def split: option.splits)

theorem getBlockBadgeType_exempt_witness:
  "extractUsername (content blueTweet) = Some (js ''alice'')
   \<and> js ''alice'' \<in> whitelistSet ((startState [])\<lparr>whitelistSet := {js ''alice''}\<rparr>)
   \<and> getBlockBadgeType ((startState [])\<lparr>whitelistSet := {js ''alice''}\<rparr>) blueTweet = None"
proof -
  have w: "js ''alice'' \<in> whitelistSet ((startState [])\<lparr>whitelistSet := {js ''alice''}\<rparr>)
         \<or> js ''alice'' \<in> followedUsersSet ((startState [])\<lparr>whitelistSet := {js ''alice''}\<rparr>)"
    by simp
  from getBlockBadgeType_exempt [OF extractUsername_blueTweet w]
  show ?thesis by (simp add: extractUsername_blueTweet)
qed

text \<open>
  C3 (as amended). For a colour that reads as the channels \<open>(r, g, b)\<close>,
  \<open>getBadgeColorType\<close> returns blue iff \<open>b > 180\<close> and \<open>r < 80\<close>; gold iff
  \<open>r > 180\<close>, \<open>g > 140\<close> and \<open>b < 80\<close>; gray iff red and green, and green and blue,
  differ by less than 40 and \<open>70 < r < 200\<close> (both bounds strict; red against blue is
  not compared); and none when no bucket matches. The string \<^verbatim>\<open>rgb(r, g, b)\<close> of
  every triple reads as its channels (\<open>rgbMatch_rgbString\<close>).
\<close>

theorem getBadgeColorType_buckets:
  assumes "rgbMatch (color svg) = Some (r, g, b)"
  shows "(getBadgeColorType svg = Some BLUE \<longleftrightarrow> b > 180 \<and> r < 80)
       \<and> (getBadgeColorType svg = Some GOLD \<longleftrightarrow> r > 180 \<and> g > 140 \<and> b < 80)
       \<and> (getBadgeColorType svg = Some GRAY \<longleftrightarrow>
            \<bar>int r - int g\<bar> < 40 \<and> \<bar>int g - int b\<bar> < 40 \<and> 70 < r \<and> r < 200)
       \<and> (getBadgeColorType svg = None \<longleftrightarrow>
            \<not> (b > 180 \<and> r < 80) \<and> \<not> (r > 180 \<and> g > 140 \<and> b < 80)
            \<and> \<not> (\<bar>int r - int g\<bar> < 40 \<and> \<bar>int g - int b\<bar> < 40 \<and> 70 < r \<and> r < 200))"
  using assms unfolding getBadgeColorType_def by (simp; linarith)

theorem getBadgeColorType_buckets_witness:
  "rgbMatch (color (badge (js ''rgb(29, 155, 240)''))) = Some (29, 155, 240)
   \<and> getBadgeColorType (badge (js ''rgb(29, 155, 240)'')) = Some BLUE"
proof -
  have h: "rgbMatch (color (badge (js ''rgb(29, 155, 240)''))) = Some (29, 155, 240)"
    by (simp add: color_badge rgbMatch_blue)
  from getBadgeColorType_buckets [OF h] show ?thesis using h by simp
qed

text \<open>
  The gray bucket as first worded takes \<open>(70, 70, 70)\<close>, which the code leaves
  without a tier, and refuses \<open>(100, 130, 160)\<close>, which the code calls gray.
\<close>

theorem getBadgeColorType_gray_counterexample:
  "rgbMatch (color (badge (js ''rgb(70, 70, 70)''))) = Some (70, 70, 70)
   \<and> gray_as_specified 70 70 70
   \<and> getBadgeColorType (badge (js ''rgb(70, 70, 70)'')) = None
   \<and> rgbMatch (color (badge (js ''rgb(100, 130, 160)''))) = Some (100, 130, 160)
   \<and> \<not> gray_as_specified 100 130 160
   \<and> getBadgeColorType (badge (js ''rgb(100, 130, 160)'')) = Some GRAY"
  by (simp add: color_badge string_defs rgb_defs getBadgeColorType_def gray_as_specified_def)

text \<open>
  C4 (as amended). The marker invariant, a replaced element is processed, is kept by
  \<open>processElement\<close>, \<open>restoreElement\<close> and \<open>handleMutations\<close>, in the document
  and in every fragment, and by \<open>replaceWithPlaceholder\<close> on an element that is marked
  processed, which is how \<open>processElement\<close> calls it. \<open>processElement\<close> leaves a
  replaced element alone, so nothing is hidden twice without a restore in between, and it
  acts only on an element that is not replaced and holds no original children. A processed
  element is left alone by \<open>processElement\<close>, and a mutation-driven scan keeps every
  processed element as it was by itself: its markers, its padding, its children and what
  it holds.
\<close>

theorem marker_invariant_preserved:
  assumes "invariant st"
  shows "invariant (processElement st ref)
       \<and> invariant (restoreAt st ref)
       \<and> invariant (handleMutations st pg mutations)
       \<and> (\<forall>e badgeType. processed e \<longrightarrow> marker_inv (replaceWithPlaceholder st e badgeType))
       \<and> (\<forall>e. marker_inv e \<longrightarrow> marker_inv (restoreElement e))
       \<and> (\<forall>e \<in> set (allNodes (body st)). replaced e \<longrightarrow> processed e)
       \<and> (\<forall>path element. lookup ref (body st) = Some (path, element) \<and> replaced (node element)
            \<longrightarrow> processElement st ref = st)
       \<and> (\<forall>path element. lookup ref (body st) = Some (path, element) \<and> processElement st ref \<noteq> st
            \<longrightarrow> \<not> replaced (node element) \<and> blockBlueOriginal (node element) = None)
       \<and> (\<forall>path element. lookup ref (body st) = Some (path, element) \<and> processed (node element)
            \<longrightarrow> processElement st ref = st)
       \<and> keepsProcessed st (handleMutations st pg mutations)"
proof -
  have marked: "marker_inv (node element)" if "lookup ref (body st) = Some (path, element)"
    for path element
    using assms lookup_allNodes [OF that] by (simp add: invariant_def list_all_iff)
  have a: "processElement st ref = st"
    if "lookup ref (body st) = Some (path, element)" and "replaced (node element)"
    for path element
    using that marked [OF that(1)] by (simp add: processElement_processed marker_inv_def)
  have b: "\<not> replaced (node element) \<and> blockBlueOriginal (node element) = None"
    if "lookup ref (body st) = Some (path, element)" and "processElement st ref \<noteq> st"
    for path element
    using that marked [OF that(1)] a [OF that(1)] by (auto simp: marker_inv_def)
  have p1: "invariant (processElement st ref)"
    using assms by (rule processElement_invariant)
  have p2: "invariant (restoreAt st ref)"
    using assms by (rule restoreAt_invariant)
  have p3: "invariant (handleMutations st pg mutations)"
    using handleMutations_kept [OF assms] by (rule conjunct1)
  have p4: "\<forall>e badgeType. processed e \<longrightarrow> marker_inv (replaceWithPlaceholder st e badgeType)"
  proof (intro allI impI)
    fix e badgeType assume "processed e"
    then show "marker_inv (replaceWithPlaceholder st e badgeType)"
      by (cases e) (simp add: marker_inv_def)
  qed
  have p5: "\<forall>e. marker_inv e \<longrightarrow> marker_inv (restoreElement e)"
  proof (intro allI impI)
    fix e assume "marker_inv e"
    then show "marker_inv (restoreElement e)"
      by (cases e) (auto simp: marker_inv_def split: option.splits)
  qed
  have p6: "\<forall>e \<in> set (allNodes (body st)). replaced e \<longrightarrow> processed e"
    using assms by (simp add: invariant_def list_all_iff marker_inv_def)
  have p7: "\<forall>path element. lookup ref (body st) = Some (path, element) \<and> replaced (node element)
            \<longrightarrow> processElement st ref = st"
    using a by blast
  have p8: "\<forall>path element. lookup ref (body st) = Some (path, element) \<and> processElement st ref \<noteq> st
            \<longrightarrow> \<not> replaced (node element) \<and> blockBlueOriginal (node element) = None"
    using b by blast
  have p9: "\<forall>path element. lookup ref (body st) = Some (path, element) \<and> processed (node element)
            \<longrightarrow> processElement st ref = st"
    by (simp add: processElement_processed)
  have p10: "keepsProcessed st (handleMutations st pg mutations)"
    using handleMutations_kept [OF assms] by (rule conjunct2)
  show ?thesis
    by (intro conjI p1 p2 p3 p4 p5 p6 p7 p8 p9 p10)
qed

theorem marker_invariant_preserved_witness:
  "invariant (startState [node blueTweet])
   \<and> invariant (processElement (startState [node blueTweet]) 2)
   \<and> invariant (handleMutations (startState [node blueTweet]) emptyPage [[HTMLElement 2]])
   \<and> keepsProcessed (startState [node blueTweet])
        (handleMutations (startState [node blueTweet]) emptyPage [[HTMLElement 2]])"
proof -
  note all = marker_invariant_preserved [OF invariant_startState_blueTweet,
      of 2 emptyPage "[[HTMLElement 2]]"]
  have "invariant (processElement (startState [node blueTweet]) 2)"
    using all by (rule conjunct1)
  moreover have "invariant (handleMutations (startState [node blueTweet]) emptyPage
      [[HTMLElement 2]])"
    using all by (elim conjE)
  moreover have "keepsProcessed (startState [node blueTweet])
        (handleMutations (startState [node blueTweet]) emptyPage [[HTMLElement 2]])"
    using all by (elim conjE)
  ultimately show ?thesis
    using invariant_startState_blueTweet by (intro conjI)
qed

text \<open>
  Taken by itself \<open>replaceWithPlaceholder\<close> does not keep the invariant: on an
  element fresh from the page it sets the replaced marker and no processed marker.
\<close>

theorem replaceWithPlaceholder_unprocessed_counterexample:
  "marker_inv (node blueTweet)
   \<and> replaced (replaceWithPlaceholder (startState []) (node blueTweet) BLUE)
   \<and> \<not> processed (replaceWithPlaceholder (startState []) (node blueTweet) BLUE)
   \<and> \<not> marker_inv (replaceWithPlaceholder (startState []) (node blueTweet) BLUE)"
  by (simp add: marker_inv_def blueTweet_def tweet_def article_def pageElement_def)

text \<open>
  C5. Hiding an element and then restoring it gives back what was there before: the
  same children in the same order, the saved \<^verbatim>\<open>style.padding\<close> assigned again, no
  replaced marker and no held children; identity, tag, attributes and the processed
  marker are not touched.
\<close>

theorem hide_restore_round_trip:
  "childNodes (restoreElement (replaceWithPlaceholder st element badgeType)) = childNodes element
   \<and> padding (restoreElement (replaceWithPlaceholder st element badgeType)) = padding element
   \<and> \<not> replaced (restoreElement (replaceWithPlaceholder st element badgeType))
   \<and> blockBlueOriginal (restoreElement (replaceWithPlaceholder st element badgeType)) = None
   \<and> blockBlueOriginalPadding (restoreElement (replaceWithPlaceholder st element badgeType))
       = None
   \<and> nodeId (restoreElement (replaceWithPlaceholder st element badgeType)) = nodeId element
   \<and> startTag (restoreElement (replaceWithPlaceholder st element badgeType)) = startTag element
   \<and> processed (restoreElement (replaceWithPlaceholder st element badgeType))
       = processed element"
  by (cases element) (simp add: startTag_def)

text \<open>
  C6. On the page of \<open>nestedHidden\<close> the card is hidden inside the hidden post; a
  mutation-driven scan that meets the card before the post leads there. When suppression
  is then switched off, \<open>rescanAll\<close> resets the count and restores the post, but the
  card comes back with its placeholder: still replaced, holding its children, and with
  its processed marker gone.
\<close>

theorem rescanAll_leaves_nested_placeholder:
  "handleMutations (startState [nestedTweet]) emptyPage [[HTMLElement 3], [HTMLElement 2]]
     = nestedHidden
   \<and> invariant nestedHidden
   \<and> body (rescanAll (nestedHidden\<lparr>settings := (settings nestedHidden)\<lparr>enabled := False\<rparr>\<rparr>)
        emptyPage)
       = body (startState [article 2 [badge (js ''rgb(29, 155, 240)''), profileLink (js ''Alice''),
                 replaceWithPlaceholder (startState []) bobCell BLUE]])
   \<and> hiddenCount (rescanAll (nestedHidden\<lparr>settings := (settings nestedHidden)\<lparr>enabled := False\<rparr>\<rparr>)
        emptyPage) = 0
   \<and> replaced (replaceWithPlaceholder (startState []) bobCell BLUE)
   \<and> \<not> processed (replaceWithPlaceholder (startState []) bobCell BLUE)
   \<and> childNodes (replaceWithPlaceholder (startState []) bobCell BLUE)
       = [placeholderBar (startState []) BLUE]
   \<and> blockBlueOriginal (replaceWithPlaceholder (startState []) bobCell BLUE)
       = Some [badge (js ''rgb(29, 155, 240)''), profileLink (js ''Bob'')]
   \<and> \<not> invariant (rescanAll (nestedHidden\<lparr>settings := (settings nestedHidden)\<lparr>enabled := False\<rparr>\<rparr>)
          emptyPage)"
  using handleMutations_nestedTweet invariant_nestedHidden leftover_placeholder
    rescanAll_nestedHidden_invariant
  by (simp add: rescanAll_nestedHidden)

theorem rescanAll_leaves_nested_placeholder_witness:
  "replaced (replaceWithPlaceholder (startState []) bobCell BLUE)
   \<and> \<not> invariant (rescanAll (nestedHidden\<lparr>settings := (settings nestedHidden)\<lparr>enabled := False\<rparr>\<rparr>)
          emptyPage)"
  using rescanAll_leaves_nested_placeholder by (elim conjE) (intro conjI)

text \<open>
  C7. The follow cache only grows: under \<open>markAsFollowed\<close>,
  \<open>scanPageForFollowedUsers\<close>, \<open>loadSettings\<close> and \<open>rescanAll\<close> (and under a
  mutation-driven scan) the cache before is a subset of the cache after.
  \<open>markAsFollowed\<close> inserts an identity that is absent and schedules the persist 2000 ms
  later, replacing a pending one; for an identity already cached it does nothing.
\<close>

theorem followedUsersSet_monotone:
  "followedUsersSet st \<subseteq> followedUsersSet (markAsFollowed st username)
   \<and> followedUsersSet st \<subseteq> followedUsersSet (scanPageForFollowedUsers st pg)
   \<and> followedUsersSet st \<subseteq> followedUsersSet (loadSettings st result stillValid followedUsers)
   \<and> followedUsersSet st \<subseteq> followedUsersSet (rescanAll st pg)
   \<and> followedUsersSet st \<subseteq> followedUsersSet (handleMutations st pg mutations)
   \<and> (username \<noteq> [] \<and> username \<notin> followedUsersSet st \<longrightarrow>
        followedUsersSet (markAsFollowed st username) = insert username (followedUsersSet st)
        \<and> followedSaveTimer (markAsFollowed st username) = Some 2000)
   \<and> (username \<in> followedUsersSet st \<longrightarrow> markAsFollowed st username = st)"
proof -
  have "followedUsersSet st \<subseteq> followedUsersSet (markAsFollowed st username)"
    using markAsFollowed_step [of st username] by (simp add: tracker_step_def)
  then show ?thesis
    by (simp add: scan_followed loadSettings_followed rescanAll_followed handleMutations_followed)
       (simp add: markAsFollowed_def debouncedSaveFollowedUsers_def)
qed

theorem followedUsersSet_monotone_witness:
  "js ''alice'' \<noteq> [] \<and> js ''alice'' \<notin> followedUsersSet (startState [])
   \<and> followedUsersSet (markAsFollowed (startState []) (js ''alice'')) = {js ''alice''}
   \<and> followedSaveTimer (markAsFollowed (startState []) (js ''alice'')) = Some 2000"
proof -
  have h: "js ''alice'' \<noteq> [] \<and> js ''alice'' \<notin> followedUsersSet (startState [])"
    by (simp add: js_def startState_def)
  have e: "followedUsersSet (startState []) = {}"
    by (simp add: startState_def)
  from followedUsersSet_monotone [of "startState []" "js ''alice''"] h e show ?thesis
    by simp
qed

text \<open>
  C8. \<open>isVerifiedBadge\<close> holds exactly for an \<^verbatim>\<open>svg\<close> element whose accessible
  label contains one of the verified keywords, whatever the case of the label's letters,
  or that has the view box \<^verbatim>\<open>0 0 22 22\<close> and at least two \<^verbatim>\<open>path\<close> descendants.
\<close>

theorem isVerifiedBadge_iff:
  "isVerifiedBadge e \<longleftrightarrow>
     toLowerCase (tagName e) = js ''svg'' \<and>
     ((\<exists>kw \<in> set VERIFIED_KEYWORDS. \<exists>pre w post.
          accessibleLabel e = pre @ w @ post \<and> toLowerCase w = toLowerCase kw)
      \<or> (getAttribute e (js ''viewBox'') = Some (js ''0 0 22 22'')
          \<and> 2 \<le> length (filter (\<lambda>p. toLowerCase (tagName p) = js ''path'') (descendants e))))"
proof -
  have kw: "list_ex (\<lambda>kw. str_includes (toLowerCase (accessibleLabel e)) kw) VERIFIED_KEYWORDS
        \<longleftrightarrow> (\<exists>kw \<in> set VERIFIED_KEYWORDS. \<exists>pre w post.
          accessibleLabel e = pre @ w @ post \<and> toLowerCase w = toLowerCase kw)"
    by (auto simp: list_ex_iff toLowerCase_includes_iff VERIFIED_KEYWORDS_lower)
  have ne: "list_ex (\<lambda>kw. str_includes (toLowerCase (accessibleLabel e)) kw) VERIFIED_KEYWORDS
        \<Longrightarrow> toLowerCase (accessibleLabel e) \<noteq> []"
    by (auto simp: list_ex_iff dest: VERIFIED_KEYWORDS_nonempty)
  show ?thesis
    unfolding isVerifiedBadge_def Let_def accessibleLabel_def [symmetric] hasType_def
    using kw ne by auto
qed

theorem isVerifiedBadge_iff_witness:
  "isVerifiedBadge (pageElement 0 (js ''svg'') [(js ''aria-label'', js ''Verified account'')] [] [] [])"
proof -
  let ?e = "pageElement 0 (js ''svg'') [(js ''aria-label'', js ''Verified account'')] [] [] []"
  have "js ''verified'' \<in> set VERIFIED_KEYWORDS"
    by (simp add: VERIFIED_KEYWORDS_def)
  moreover have "accessibleLabel ?e = [] @ js ''Verified'' @ js '' account''"
    by (simp add: accessibleLabel_def getAttribute_def pageElement_def js_def)
  moreover have "toLowerCase (js ''Verified'') = toLowerCase (js ''verified'')"
    by (simp add: string_defs)
  moreover have "toLowerCase (tagName ?e) = js ''svg''"
    by (simp add: pageElement_def string_defs)
  ultimately show ?thesis
    using isVerifiedBadge_iff [of ?e] by blast
qed

text \<open>
  C9. When suppression is disabled, \<open>getBlockBadgeType\<close> returns none for every
  container.
\<close>

theorem getBlockBadgeType_disabled:
  "\<not> enabled (settings st) \<Longrightarrow> getBlockBadgeType st element = None"
  by (simp add: getBlockBadgeType_def)

theorem getBlockBadgeType_disabled_witness:
  "\<not> enabled (settings ((startState [])\<lparr>settings := (settings (startState []))\<lparr>enabled := False\<rparr>\<rparr>))
   \<and> getBlockBadgeType
        ((startState [])\<lparr>settings := (settings (startState []))\<lparr>enabled := False\<rparr>\<rparr>) blueTweet
      = None
   \<and> getBlockBadgeType (startState []) blueTweet = Some BLUE"
proof -
  have h: "\<not> enabled (settings
      ((startState [])\<lparr>settings := (settings (startState []))\<lparr>enabled := False\<rparr>\<rparr>))"
    by simp
  from getBlockBadgeType_disabled [OF h, of blueTweet] h show ?thesis
    by (simp add: getBlockBadgeType_blueTweet)
qed

text \<open>
  C10. The decision is read-only: called in any state on any element it ends in the
  state it started in, so no marker is set or cleared, nothing is hidden or restored, and
  settings, allow-list, follow cache and count are as before; its value is that of
  \<open>getBlockBadgeType\<close>. \<open>processElement\<close>, which calls it, is what writes: on an
  unprocessed element it sets the processed marker, and on a tier it hides the element and
  counts it, by one while the count is below \<open>2 ^ 53\<close>.
\<close>

theorem getBlockBadgeType_read_only:
  "getBlockBadgeType_call element st = (getBlockBadgeType st element, st)
   \<and> processElement st ref =
       (case lookup ref (body st) of
          None \<Rightarrow> st
        | Some (path, found) \<Rightarrow>
            if processed (node found) then st
            else (case getBlockBadgeType st (found\<lparr>node := setProcessed True (node found)\<rparr>) of
                    None \<Rightarrow> st\<lparr>body := modifyAt path (setProcessed True) (body st)\<rparr>
                  | Some badgeType \<Rightarrow>
                      st\<lparr>body := modifyAt path
                                   (\<lambda>e. replaceWithPlaceholder st (setProcessed True e) badgeType)
                                   (body st),
                         hiddenCount := increment (hiddenCount st)\<rparr>))
   \<and> (- (2 ^ 53) \<le> hiddenCount st \<and> hiddenCount st < 2 ^ 53
        \<longrightarrow> increment (hiddenCount st) = hiddenCount st + 1)"
  using getBlockBadgeType_call_eq [of element st] processElement_eq [of st ref]
    increment_exact [of "hiddenCount st"]
  by (intro conjI impI) simp_all

theorem getBlockBadgeType_read_only_witness:
  "getBlockBadgeType_call blueTweet (startState [node blueTweet])
     = (Some BLUE, startState [node blueTweet])
   \<and> - (2 ^ 53) \<le> hiddenCount (startState [node blueTweet])
   \<and> hiddenCount (startState [node blueTweet]) < 2 ^ 53
   \<and> increment (hiddenCount (startState [node blueTweet])) = 1"
proof -
  have h: "hiddenCount (startState [node blueTweet]) = 0"
    by (simp add: startState_def)
  from getBlockBadgeType_read_only [of blueTweet "startState [node blueTweet]" 2]
  show ?thesis
    by (simp add: getBlockBadgeType_blueTweet h)
qed
end
